theory Spec2Isabelle
  imports Main "HOL-Library.Multiset" "HOL-Library.Log_Nat" "HOL-Library.Word"
begin

section \<open>Initiating a balanced channel: the model\<close>

text \<open>
  A shallow embedding of \<^verbatim>\<open>services/initiate_balanced_channel.js\<close>. The module is one
  \<^verbatim>\<open>asyncAuto\<close> task graph; every task is a function of the results of the tasks it
  depends on. Calls into other packages (the LND client, bitcoinjs-lib, crypto) are
  parameters of the definitions that use them.
\<close>

subsection \<open>Numbers as the prompts give them\<close>

text \<open>
  A prompt of type \<^verbatim>\<open>number\<close> answers with a JavaScript number, an IEEE 754 double. A
  finite double is modelled by the rational it is and an input that is not a number by
  \<open>NaN\<close>. Infinities are outside the model.
\<close>

datatype js_number = NaN | Num rat

text \<open>
  The rounding of double arithmetic: the nearest number with 53 significant bits, ties
  to the even one, on the grid of \<open>2^-1074\<close> in the subnormal range. The exponent is
  not bounded above (no overflow to an infinity). \<open>binary_exponent x\<close> is the floor of
  the binary logarithm of a positive \<open>x\<close>.
\<close>

fun bit_length :: "nat \<Rightarrow> nat" where
  "bit_length n = (if n = 0 then 0 else Suc (bit_length (n div 2)))"

declare bit_length.simps [simp del]

definition two_power :: "int \<Rightarrow> rat" where
  "two_power e = (if 0 \<le> e then 2 ^ nat e else 1 / 2 ^ nat (- e))"

definition binary_exponent :: "rat \<Rightarrow> int" where
  "binary_exponent x =
     (if 1 \<le> x then int (bit_length (nat \<lfloor>x\<rfloor>)) - 1
      else - int (bit_length (nat (\<lceil>1 / x\<rceil> - 1))))"

definition round_half_even :: "rat \<Rightarrow> int" where
  "round_half_even x =
     (let f = \<lfloor>x\<rfloor>; d = x - of_int f
      in if d < 1 / 2 then f else if 1 / 2 < d then f + 1 else if even f then f else f + 1)"

definition to_double :: "rat \<Rightarrow> rat" where
  "to_double x =
     (if x = 0 then 0
      else
        (let e = max (binary_exponent \<bar>x\<bar> - 52) (- 1074)
         in sgn x * of_int (round_half_even (\<bar>x\<bar> / two_power e)) * two_power e))"

text \<open>
  Error values are the source's \<^verbatim>\<open>[code, message]\<close> arrays; the details some of them
  carry as a third element are left out.
\<close>

type_synonym error = "nat \<times> string"


fun js_mul :: "js_number \<Rightarrow> js_number \<Rightarrow> js_number" where
  "js_mul (Num a) (Num b) = Num (to_double (a * b))"
| "js_mul _ _ = NaN"

text \<open>
  \<^verbatim>\<open>a / b\<close>: the exact quotient; the source divides by the literal 2 only (a zero
  divisor is mapped to \<open>NaN\<close>). Half a double is a double unless its last bit is lost
  below \<open>2^-1022\<close>: \<open>js_round\<close> rounds the quotient where the dividend can be that small,
  in \<^verbatim>\<open>fundingAmount\<close>. In \<^verbatim>\<open>giveTokens\<close> the dividend is a capacity that the prompt
  accepted, zero or an even integer, and in \<^verbatim>\<open>fundingFee\<close> it is the literal 190.
\<close>

fun js_div :: "js_number \<Rightarrow> js_number \<Rightarrow> js_number" where
  "js_div (Num a) (Num b) = (if b = 0 then NaN else Num (a / b))"
| "js_div _ _ = NaN"


text \<open>
  \<^verbatim>\<open>a % b\<close>: the remainder has the sign of the dividend (truncated division); it is
  exact on doubles, and so is \<^verbatim>\<open>Math.ceil\<close>.
\<close>

definition js_trunc :: "rat \<Rightarrow> int" where
  "js_trunc q = (if 0 \<le> q then \<lfloor>q\<rfloor> else \<lceil>q\<rceil>)"

fun js_rem :: "js_number \<Rightarrow> js_number \<Rightarrow> js_number" where
  "js_rem (Num a) (Num b) = (if b = 0 then NaN else Num (a - b * of_int (js_trunc (a / b))))"
| "js_rem _ _ = NaN"

fun js_ceil :: "js_number \<Rightarrow> js_number" where
  "js_ceil (Num a) = Num (of_int \<lceil>a\<rceil>)"
| "js_ceil NaN = NaN"

text \<open>Truthiness of a number: everything but zero and \<open>NaN\<close>.\<close>

fun truthy :: "js_number \<Rightarrow> bool" where
  "truthy (Num a) = (a \<noteq> 0)"
| "truthy NaN = False"


definition fundingFee :: "js_number \<Rightarrow> js_number" where
  "fundingFee rate = js_ceil (js_mul (js_div (Num 190) (Num 2)) rate)"

definition giveTokens :: "js_number \<Rightarrow> js_number" where
  "giveTokens capacity = js_ceil (js_div capacity (Num 2))"

definition isNumber :: "js_number \<Rightarrow> bool" where
  "isNumber n = (n \<noteq> NaN)"

definition isOdd :: "js_number \<Rightarrow> js_number" where
  "isOdd n = js_rem n (Num 2)"

subsection \<open>The prompts\<close>

text \<open>
  \<^verbatim>\<open>askForCapacity\<close> and \<^verbatim>\<open>askForFeeRate\<close>, as functions of the answer the prompt
  hands to their callback.
\<close>

definition askForCapacity :: "js_number \<Rightarrow> error + js_number" where
  "askForCapacity capacity =
     (if \<not> isNumber capacity then Inl (400, ''ExpectedChannelCapacityAmountToRequestOpen'')
      else if truthy (isOdd capacity) then Inl (400, ''ExpectedEvenCapacityToSplitBalance'')
      else Inr capacity)"


subsection \<open>The task graph\<close>

datatype task =
  Validate | GetChainFee | GetChannels | GetMultiSigKey | Connect | GetTransitKey
  | ProbeForRouteToNode | Network | ConfirmInboundChannel | AskForCapacity
  | TestOpenChannel | AskForFeeRate | AskForFunding | GetRefundTransaction
  | MessagesToPush | CreateAcceptRequest | PushRequest | P2pService | WaitForAccept
  | DeriveFundingAddress | HalfSign | SignChannelFunding | FullySignedFunding
  | Propose | Initiated

text \<open>The dependency list each task declares in the object given to \<^verbatim>\<open>asyncAuto\<close>.\<close>

fun deps :: "task \<Rightarrow> task list" where
  "deps Validate = []"
| "deps GetChainFee = [Validate]"
| "deps GetChannels = [Validate]"
| "deps GetMultiSigKey = [Validate]"
| "deps Connect = [Validate]"
| "deps GetTransitKey = [Validate]"
| "deps ProbeForRouteToNode = [Validate]"
| "deps Network = [Validate]"
| "deps ConfirmInboundChannel = [GetChannels]"
| "deps AskForCapacity = [Connect, ProbeForRouteToNode]"
| "deps TestOpenChannel = [AskForCapacity, Connect]"
| "deps AskForFeeRate = [AskForCapacity, GetChainFee]"
| "deps AskForFunding = [AskForCapacity, AskForFeeRate, Network]"
| "deps GetRefundTransaction = [AskForCapacity, AskForFunding, GetTransitKey]"
| "deps MessagesToPush = [AskForCapacity, AskForFeeRate, AskForFunding, GetMultiSigKey]"
| "deps CreateAcceptRequest = [MessagesToPush]"
| "deps PushRequest = [CreateAcceptRequest, GetRefundTransaction, MessagesToPush]"
| "deps P2pService = [AskForFunding, CreateAcceptRequest]"
| "deps WaitForAccept = [AskForFunding, CreateAcceptRequest, P2pService, PushRequest]"
| "deps DeriveFundingAddress = [GetMultiSigKey, WaitForAccept]"
| "deps HalfSign = [AskForCapacity, AskForFunding, DeriveFundingAddress, WaitForAccept]"
| "deps SignChannelFunding =
     [AskForCapacity, AskForFeeRate, AskForFunding, HalfSign, Network, WaitForAccept]"
| "deps FullySignedFunding =
     [AskForCapacity, AskForFunding, DeriveFundingAddress, GetMultiSigKey, GetTransitKey,
      HalfSign, SignChannelFunding]"
| "deps Propose = [AskForCapacity, DeriveFundingAddress, FullySignedFunding, WaitForAccept]"
| "deps Initiated = [AskForFunding, FullySignedFunding]"

text \<open>
  The tasks whose body hands \<^verbatim>\<open>args.lnd\<close> to a call of the node or of the
  network: the calls that leave the process.
\<close>

fun calls_lnd :: "task \<Rightarrow> bool" where
  "calls_lnd GetChainFee = True"
| "calls_lnd GetChannels = True"
| "calls_lnd GetMultiSigKey = True"
| "calls_lnd Connect = True"
| "calls_lnd GetTransitKey = True"
| "calls_lnd ProbeForRouteToNode = True"
| "calls_lnd TestOpenChannel = True"
| "calls_lnd AskForFunding = True"
| "calls_lnd GetRefundTransaction = True"
| "calls_lnd CreateAcceptRequest = True"
| "calls_lnd PushRequest = True"
| "calls_lnd P2pService = True"
| "calls_lnd WaitForAccept = True"
| "calls_lnd SignChannelFunding = True"
| "calls_lnd Propose = True"
| "calls_lnd _ = False"

text \<open>The tasks whose body evaluates \<^verbatim>\<open>giveTokens(askForCapacity)\<close>.\<close>

fun calls_giveTokens :: "task \<Rightarrow> bool" where
  "calls_giveTokens TestOpenChannel = True"
| "calls_giveTokens SignChannelFunding = True"
| "calls_giveTokens Propose = True"
| "calls_giveTokens _ = False"

text \<open>
  The peer-message service the \<^verbatim>\<open>p2pService\<close> task returns: the real one of
  \<^verbatim>\<open>servicePeerRequests\<close>, or the dummy \<^verbatim>\<open>{request: () => {}, stop: () => {}}\<close>.
\<close>

datatype p2p_service = DummyService | PeerRequestsService

text \<open>
  \<^verbatim>\<open>p2pService\<close>, as a function of the error \<^verbatim>\<open>sendMessageToPeer\<close> hands to its
  callback (\<open>None\<close> when the test message was sent).
\<close>

definition p2pService :: "error option \<Rightarrow> error + p2p_service" where
  "p2pService err = (if err \<noteq> None then Inr DummyService else Inr PeerRequestsService)"

text \<open>
  The state of one run of \<^verbatim>\<open>asyncAuto\<close>: the tasks started (in order), those that
  called back with a result, the errors called back (the first one is the result of the
  whole operation), the results of the two tasks modelled in full, and the arguments
  \<^verbatim>\<open>giveTokens\<close> was applied to (\<open>None\<close> for \<^verbatim>\<open>undefined\<close>).
\<close>

record auto_state =
  started :: "task list"
  completed :: "task list"
  failed :: "(task \<times> error) list"
  results_askForCapacity :: "js_number option"
  results_p2pService :: "p2p_service option"
  giveTokens_args :: "js_number option list"

definition initial_state :: auto_state where
  "initial_state =
     \<lparr>started = [], completed = [], failed = [], results_askForCapacity = None,
      results_p2pService = None, giveTokens_args = []\<rparr>"

text \<open>
  What happens in a run: \<^verbatim>\<open>asyncAuto\<close> starts a task, a task calls back with a result
  or with an error, the user answers the capacity prompt, \<^verbatim>\<open>sendMessageToPeer\<close> calls
  back. The outcome of \<^verbatim>\<open>askForCapacity\<close> and of \<^verbatim>\<open>p2pService\<close> is computed by the
  functions above; the outcome of every other task is left to the environment.
\<close>

datatype event =
  Start task
  | Succeed task
  | Fail task error
  | Answer js_number
  | SendMessageToPeer "error option"

definition finished :: "auto_state \<Rightarrow> task \<Rightarrow> bool" where
  "finished s t = (t \<in> set (completed s) \<or> t \<in> fst ` set (failed s))"

definition running :: "auto_state \<Rightarrow> task \<Rightarrow> bool" where
  "running s t = (t \<in> set (started s) \<and> \<not> finished s t)"

text \<open>
  One step; \<open>None\<close> when the event cannot happen in the state. A task is started once,
  when every task it depends on has called back with a result and no task has called
  back with an error (\<^verbatim>\<open>hasError\<close>); it calls back once.
\<close>

fun step :: "auto_state \<Rightarrow> event \<Rightarrow> auto_state option" where
  "step s (Start t) =
     (if failed s = [] \<and> t \<notin> set (started s) \<and> set (deps t) \<subseteq> set (completed s)
      then Some (s\<lparr>started := started s @ [t],
                   giveTokens_args :=
                     giveTokens_args s @
                       (if calls_giveTokens t then [results_askForCapacity s] else [])\<rparr>)
      else None)"
| "step s (Succeed t) =
     (if running s t \<and> t \<noteq> AskForCapacity \<and> t \<noteq> P2pService
      then Some (s\<lparr>completed := completed s @ [t]\<rparr>)
      else None)"
| "step s (Fail t e) =
     (if running s t \<and> t \<noteq> AskForCapacity \<and> t \<noteq> P2pService
      then Some (s\<lparr>failed := failed s @ [(t, e)]\<rparr>)
      else None)"
| "step s (Answer capacity) =
     (if running s AskForCapacity
      then (case askForCapacity capacity of
              Inl e \<Rightarrow> Some (s\<lparr>failed := failed s @ [(AskForCapacity, e)]\<rparr>)
            | Inr c \<Rightarrow> Some (s\<lparr>completed := completed s @ [AskForCapacity],
                                results_askForCapacity := Some c\<rparr>))
      else None)"
| "step s (SendMessageToPeer err) =
     (if running s P2pService
      then (case p2pService err of
              Inl e \<Rightarrow> Some (s\<lparr>failed := failed s @ [(P2pService, e)]\<rparr>)
            | Inr service \<Rightarrow> Some (s\<lparr>completed := completed s @ [P2pService],
                                      results_p2pService := Some service\<rparr>))
      else None)"

fun exec :: "auto_state \<Rightarrow> event list \<Rightarrow> auto_state option" where
  "exec s [] = Some s"
| "exec s (e # es) = (case step s e of None \<Rightarrow> None | Some s' \<Rightarrow> exec s' es)"

text \<open>The result of the whole operation: the first error called back, if any.\<close>

definition operation_error :: "auto_state \<Rightarrow> error option" where
  "operation_error s = (case failed s of [] \<Rightarrow> None | (t, e) # _ \<Rightarrow> Some e)"

text \<open>The error of the capacity prompt on an odd answer.\<close>

definition capacity_error :: error where
  "capacity_error = (400, ''ExpectedEvenCapacityToSplitBalance'')"

text \<open>A capacity result that is an even integer.\<close>

definition even_capacity :: "js_number option \<Rightarrow> bool" where
  "even_capacity a = (\<exists>k::int. a = Some (Num (of_int (2 * k))))"

text \<open>
  What every reachable state of a run satisfies: a started task has its dependencies
  completed, a completed capacity prompt left an even integer, \<^verbatim>\<open>giveTokens\<close> was
  applied to even integers only, and the capacity prompt called back once.
\<close>

definition run_inv :: "auto_state \<Rightarrow> bool" where
  "run_inv s =
     ((\<forall>t\<in>set (started s). set (deps t) \<subseteq> set (completed s)) \<and>
      (AskForCapacity \<in> set (completed s) \<longrightarrow> even_capacity (results_askForCapacity s)) \<and>
      (\<forall>a\<in>set (giveTokens_args s). even_capacity a) \<and>
      (AskForCapacity \<in> set (completed s) \<longrightarrow> AskForCapacity \<notin> fst ` set (failed s)))"

text \<open>
  Two concrete runs up to the capacity prompt: the user answers 2,000,000 and the
  channel-open test starts; the user answers 1,000,001.
\<close>

definition run_even :: "event list" where
  "run_even =
     [Start Validate, Succeed Validate, Start Connect, Start ProbeForRouteToNode,
      Succeed Connect, Succeed ProbeForRouteToNode, Start AskForCapacity,
      Answer (Num 2000000), Start TestOpenChannel]"

definition run_odd :: "event list" where
  "run_odd =
     [Start Validate, Succeed Validate, Start Connect, Start ProbeForRouteToNode,
      Succeed Connect, Succeed ProbeForRouteToNode, Start AskForCapacity,
      Answer (Num 1000001)]"

subsection \<open>Hex strings, buffers and sorting\<close>

type_synonym byte = "8 word"

text \<open>
  \<^verbatim>\<open>Buffer.from(hex, 'hex')\<close> decodes two hex digits (of either case) to a byte and
  stops at the first pair that is not two hex digits; \<^verbatim>\<open>buffer.toString('hex')\<close>
  writes two lowercase digits per byte.
\<close>

definition hexDigitValue :: "char \<Rightarrow> nat option" where
  "hexDigitValue c =
     (let n = (of_char c :: nat) in
      if 48 \<le> n \<and> n \<le> 57 then Some (n - 48)
      else if 97 \<le> n \<and> n \<le> 102 then Some (n - 87)
      else if 65 \<le> n \<and> n \<le> 70 then Some (n - 55)
      else None)"

fun hexAsBuffer :: "string \<Rightarrow> byte list" where
  "hexAsBuffer (a # b # rest) =
     (case hexDigitValue a of
        None \<Rightarrow> []
      | Some h \<Rightarrow>
          (case hexDigitValue b of
             None \<Rightarrow> []
           | Some l \<Rightarrow> of_nat (16 * h + l) # hexAsBuffer rest))"
| "hexAsBuffer _ = []"

definition hexDigit :: "nat \<Rightarrow> char" where
  "hexDigit n = (if n < 10 then char_of (48 + n) else char_of (87 + n))"

definition byteAsHex :: "byte \<Rightarrow> string" where
  "byteAsHex b = [hexDigit (unat b div 16), hexDigit (unat b mod 16)]"

definition bufferAsHex :: "byte list \<Rightarrow> string" where
  "bufferAsHex buffer = concat (map byteAsHex buffer)"

definition idAsHash :: "string \<Rightarrow> byte list" where
  "idAsHash hex_id = rev (hexAsBuffer hex_id)"

text \<open>
  The order of JavaScript on strings: code units are compared in turn, and a proper
  prefix comes first.
\<close>

fun string_less :: "string \<Rightarrow> string \<Rightarrow> bool" where
  "string_less [] [] = False"
| "string_less [] (y # ys) = True"
| "string_less (x # xs) [] = False"
| "string_less (x # xs) (y # ys) =
     (if (of_char x :: nat) < of_char y then True
      else if (of_char y :: nat) < of_char x then False
      else string_less xs ys)"

text \<open>The comparison \<^verbatim>\<open>sort()\<close> uses when it is given no comparator.\<close>

definition default_compare :: "string \<Rightarrow> string \<Rightarrow> int" where
  "default_compare a b = (if string_less a b then - 1 else if string_less b a then 1 else 0)"

text \<open>
  \<^verbatim>\<open>a.localeCompare(b)\<close>. The source applies it to the output of
  \<^verbatim>\<open>buffer.toString('hex')\<close> only: strings of lowercase hex digits, which a locale
  collates in the order of their code units.
\<close>

definition localeCompare :: "string \<Rightarrow> string \<Rightarrow> int" where
  "localeCompare a b = (if string_less a b then - 1 else if string_less b a then 1 else 0)"

text \<open>
  \<^verbatim>\<open>array.sort(compare)\<close>: a stable sort, ascending in the comparator (an element goes
  before the first one it compares below).
\<close>

fun insert_by :: "('a \<Rightarrow> 'a \<Rightarrow> int) \<Rightarrow> 'a \<Rightarrow> 'a list \<Rightarrow> 'a list" where
  "insert_by compare x [] = [x]"
| "insert_by compare x (y # ys) =
     (if compare x y < 0 then x # y # ys else y # insert_by compare x ys)"

definition array_sort :: "('a \<Rightarrow> 'a \<Rightarrow> int) \<Rightarrow> 'a list \<Rightarrow> 'a list" where
  "array_sort compare xs = foldl (\<lambda>sorted x. insert_by compare x sorted) [] xs"

text \<open>\<^verbatim>\<open>array.findIndex(p)\<close>; \<open>None\<close> for the index -1.\<close>

fun findIndex :: "('a \<Rightarrow> bool) \<Rightarrow> 'a list \<Rightarrow> nat option" where
  "findIndex p [] = None"
| "findIndex p (x # xs) =
     (if p x then Some 0 else (case findIndex p xs of None \<Rightarrow> None | Some i \<Rightarrow> Some (Suc i)))"

subsection \<open>The multisig address\<close>

text \<open>
  \<^verbatim>\<open>deriveFundingAddress\<close>. The two public keys are hex strings; \<^verbatim>\<open>p2ms\<close> and
  \<^verbatim>\<open>p2wsh\<close> of bitcoinjs-lib are parameters, the second returning the hash and the
  output script of the payment.
\<close>

record funding_address =
  address_hash :: string
  address_script :: string

definition deriveFundingAddress ::
  "(nat \<Rightarrow> byte list list \<Rightarrow> 'redeem) \<Rightarrow> ('redeem \<Rightarrow> byte list \<times> byte list) \<Rightarrow>
   string \<Rightarrow> string \<Rightarrow> funding_address" where
  "deriveFundingAddress p2ms p2wsh own_multisig_key peer_multisig_key =
     (let publicKeys = [own_multisig_key, peer_multisig_key];
          funding = p2wsh (p2ms (length publicKeys)
                      (map hexAsBuffer (array_sort default_compare publicKeys)))
      in \<lparr>address_hash = bufferAsHex (fst funding),
          address_script = bufferAsHex (snd funding)\<rparr>)"

text \<open>
  The derivation in the words of the specification: the two raw public keys sorted
  byte-wise ascending, then the 2-of-2 script over them.
\<close>

fun bytes_less :: "byte list \<Rightarrow> byte list \<Rightarrow> bool" where
  "bytes_less [] [] = False"
| "bytes_less [] (y # ys) = True"
| "bytes_less (x # xs) [] = False"
| "bytes_less (x # xs) (y # ys) =
     (if x < y then True else if y < x then False else bytes_less xs ys)"

definition canonical_multisig ::
  "(nat \<Rightarrow> byte list list \<Rightarrow> 'redeem) \<Rightarrow> ('redeem \<Rightarrow> byte list \<times> byte list) \<Rightarrow>
   byte list \<Rightarrow> byte list \<Rightarrow> funding_address" where
  "canonical_multisig p2ms p2wsh key1 key2 =
     (let funding = p2wsh (p2ms 2 (if bytes_less key2 key1 then [key2, key1] else [key1, key2]))
      in \<lparr>address_hash = bufferAsHex (fst funding),
          address_script = bufferAsHex (snd funding)\<rparr>)"

subsection \<open>The transit funding\<close>

text \<open>
  A transaction as bitcoinjs-lib holds it: inputs (hash in internal byte order, output
  index, sequence, witness stack) and outputs (script, value).
\<close>

record tx_input =
  input_hash :: "byte list"
  input_index :: nat
  input_sequence :: nat
  input_witness :: "byte list list"

record tx_output =
  output_script :: "byte list"
  output_value :: js_number

record transaction =
  tx_version :: nat
  tx_locktime :: nat
  ins :: "tx_input list"
  outs :: "tx_output list"




text \<open>The result of \<^verbatim>\<open>askForFunding\<close>.\<close>

record transit_funding =
  funding_tokens :: js_number
  funding_inputs :: "(string \<times> nat) list option"
  funding_transaction :: string
  funding_transaction_id :: string
  funding_transaction_vout :: nat


subsection \<open>The negotiation records and their digest\<close>

text \<open>
  A record \<^verbatim>\<open>{type, value}\<close>: the type is a decimal string in the source, modelled by
  the number it denotes; the value is a hex string.
\<close>

record tlv =
  tlv_type :: nat
  tlv_value :: string

text \<open>
  The record types of \<^verbatim>\<open>balancedChannelKeyTypes\<close>. The module that declares them,
  \<^verbatim>\<open>./service_key_types\<close>, is not among the sources, so they are a parameter.
\<close>

record key_types =
  type_accept_request :: nat
  type_channel_capacity :: nat
  type_funding_tx_fee_rate :: nat
  type_multisig_public_key :: nat
  type_transit_tx_id :: nat
  type_transit_tx_vout :: nat

definition keySendPreimageType :: nat where
  "keySendPreimageType = 5482373484"

text \<open>\<^verbatim>\<open>num.toString(16)\<close> of a non-negative integer, and the padding to whole bytes.\<close>

fun numAsHex :: "nat \<Rightarrow> string" where
  "numAsHex n = (if n < 16 then [hexDigit n] else numAsHex (n div 16) @ [hexDigit (n mod 16)])"

declare numAsHex.simps [simp del]

definition paddedHexNumber :: "string \<Rightarrow> string" where
  "paddedHexNumber n = (if length n mod 2 \<noteq> 0 then CHR ''0'' # n else n)"

text \<open>
  \<^verbatim>\<open>Number(type)\<close> of a decimal string: the integer itself below \<open>2^53\<close>, and above it
  the nearest double (53 significant bits, ties to even; a type that large is beyond
  \<open>2^64\<close> long before it would be an infinity, and then the digest step raises).
\<close>

definition js_Number :: "nat \<Rightarrow> int" where
  "js_Number n =
     (if n < 2 ^ 53 then int n
      else
        (let e = floorlog 2 n - 53; q = n div 2 ^ e; r = n mod 2 ^ e; half = 2 ^ (e - 1)
         in int ((if half < r \<or> (r = half \<and> odd q) then q + 1 else q) * 2 ^ e)))"

definition type_compare :: "tlv \<Rightarrow> tlv \<Rightarrow> int" where
  "type_compare a b = js_Number (tlv_type a) - js_Number (tlv_type b)"

text \<open>
  \<^verbatim>\<open>type.writeBigUInt64BE(BigInt(message.type))\<close> into a buffer of eight bytes; a
  type of \<open>2^64\<close> or more raises a RangeError (\<open>None\<close>).
\<close>

definition writeBigUInt64BE :: "nat \<Rightarrow> byte list option" where
  "writeBigUInt64BE n =
     (if n < 2 ^ 64 then Some (map (\<lambda>i. of_nat (n div 256 ^ (7 - i))) [0..<8]) else None)"

definition encode_message :: "tlv \<Rightarrow> byte list option" where
  "encode_message message =
     (case writeBigUInt64BE (tlv_type message) of
        None \<Rightarrow> None
      | Some type \<Rightarrow> Some (type @ hexAsBuffer (tlv_value message)))"

text \<open>
  The digest step of \<^verbatim>\<open>messagesToPush\<close> (lines 445-457): sort the records, encode
  and concatenate them, hash. \<^verbatim>\<open>sha256\<close> (the hash of node's crypto, as a hex string)
  is a parameter.
\<close>

definition messages_digest :: "(byte list \<Rightarrow> string) \<Rightarrow> tlv list \<Rightarrow> string option" where
  "messages_digest sha256 messages =
     (case those (map encode_message (array_sort type_compare messages)) of
        None \<Rightarrow> None
      | Some chunks \<Rightarrow> Some (sha256 (concat chunks)))"

record pushed_messages =
  push_messages :: "tlv list"
  push_digest :: string
  push_id :: string

text \<open>
  \<^verbatim>\<open>messagesToPush\<close>; the secret of \<^verbatim>\<open>makeHtlcPreimage\<close> (random bytes) is an
  argument. Capacity, fee rate and output index are taken as non-negative integers, the
  numbers whose \<^verbatim>\<open>toString(16)\<close> is modelled. \<open>None\<close> is the RangeError.
\<close>

definition request_messages ::
  "key_types \<Rightarrow> string \<Rightarrow> nat \<Rightarrow> nat \<Rightarrow> string \<Rightarrow> string \<Rightarrow> nat \<Rightarrow> tlv list" where
  "request_messages types secret capacity rate multisig_key transit_id transit_vout =
     [\<lparr>tlv_type = keySendPreimageType, tlv_value = secret\<rparr>,
      \<lparr>tlv_type = type_channel_capacity types,
       tlv_value = paddedHexNumber (numAsHex capacity)\<rparr>,
      \<lparr>tlv_type = type_funding_tx_fee_rate types,
       tlv_value = paddedHexNumber (numAsHex rate)\<rparr>,
      \<lparr>tlv_type = type_multisig_public_key types, tlv_value = multisig_key\<rparr>,
      \<lparr>tlv_type = type_transit_tx_id types, tlv_value = transit_id\<rparr>,
      \<lparr>tlv_type = type_transit_tx_vout types,
       tlv_value = paddedHexNumber (numAsHex transit_vout)\<rparr>]"

definition messagesToPush ::
  "(byte list \<Rightarrow> string) \<Rightarrow> key_types \<Rightarrow> string \<Rightarrow> nat \<Rightarrow> nat \<Rightarrow> string \<Rightarrow> string \<Rightarrow>
   nat \<Rightarrow> pushed_messages option" where
  "messagesToPush sha256 types secret capacity rate multisig_key transit_id transit_vout =
     (let messages = request_messages types secret capacity rate multisig_key transit_id
                       transit_vout
      in case messages_digest sha256 messages of
           None \<Rightarrow> None
         | Some digest \<Rightarrow>
             Some \<lparr>push_messages = array_sort type_compare messages,
                   push_digest = digest,
                   push_id = sha256 (hexAsBuffer secret)\<rparr>)"

subsection \<open>The acceptance invoice\<close>

text \<open>
  \<^verbatim>\<open>createAcceptRequest\<close>: an invoice of one token whose description hash is the digest
  of the records. \<^verbatim>\<open>createInvoice\<close> of the node is a parameter; the invoice it
  calls back with has an id and an encoded payment request.
\<close>

record created_invoice =
  invoice_id :: string
  invoice_request :: string

definition acceptTokens :: nat where
  "acceptTokens = 1"

definition createAcceptRequest ::
  "(string \<Rightarrow> nat \<Rightarrow> error + created_invoice) \<Rightarrow> pushed_messages \<Rightarrow> error + created_invoice" where
  "createAcceptRequest createInvoice pushed = createInvoice (push_digest pushed) acceptTokens"

subsection \<open>Waiting for the acceptance\<close>

text \<open>What the peer contributes, as \<^verbatim>\<open>balancedOpenAcceptDetails\<close> returns it.\<close>

record accept_details =
  accept_funding_signature :: string
  accept_multisig_public_key :: string
  accept_transaction_id :: string
  accept_transaction_vout :: nat
  accept_transit_public_key :: string

record peer_request =
  request_from :: string
  request_records :: "tlv list"

record invoice_payment =
  payment_messages :: "tlv list"

record invoice =
  is_confirmed :: bool
  payments :: "invoice_payment list"

text \<open>
  What the task closes over: \<^verbatim>\<open>args.partner_public_key\<close>, the result of
  \<^verbatim>\<open>createAcceptRequest\<close>, the record type \<^verbatim>\<open>multiSigType\<close> (of the key types, a
  parameter), \<^verbatim>\<open>balancedOpenAcceptDetails\<close> and the callback \<^verbatim>\<open>cbk\<close> of the task. The
  module of the parser, \<^verbatim>\<open>./balanced_open_accept_details\<close>, is not among the sources:
  it is a parameter that returns the details or throws an error with a message
  (\<open>Inl\<close>).

  The call \<^verbatim>\<open>cbk(null, acceptance)\<close> does not only record the result: inside that call
  \<^verbatim>\<open>asyncAuto\<close> runs the tasks that have become ready, \<^verbatim>\<open>deriveFundingAddress\<close> and
  then \<^verbatim>\<open>halfSign\<close>, which are synchronous, so that an error one of them throws comes
  out of the call. \<open>callback_throws\<close> is the message of that error, if there is one;
  \<open>tasks_in_callback\<close> below is this function for the tasks of the module. A call of
  \<^verbatim>\<open>cbk\<close> with an error returns.
\<close>

record wait_context =
  partner_public_key :: string
  accept_request :: created_invoice
  multiSigType :: nat
  balancedOpenAcceptDetails :: "tlv list \<Rightarrow> string + accept_details"
  callback_throws :: "accept_details \<Rightarrow> string option"

text \<open>
  What a handler does, in the order of the statements of the source; \<open>Callback r\<close> is
  a call of \<^verbatim>\<open>cbk\<close>. The replies \<^verbatim>\<open>res.success\<close> and \<^verbatim>\<open>res.failure\<close> are taken to
  return.
\<close>

datatype effect =
  RemoveAllListeners
  | StopService
  | CancelHodlInvoice string
  | LogInfo string
  | ReplySuccess
  | ReplyFailure error
  | Callback "error + accept_details"

text \<open>
  The handler given to \<^verbatim>\<open>p2pService.request\<close> (lines 577-616). The parser, the reply
  and the call of \<^verbatim>\<open>cbk\<close> with the acceptance are inside one \<^verbatim>\<open>try\<close>, whose
  \<^verbatim>\<open>catch\<close> replies with a failure and calls \<^verbatim>\<open>cbk\<close> with the error it caught:
  the error of the parser, or the error that came out of the call of \<^verbatim>\<open>cbk\<close>.
\<close>

definition on_peer_request :: "wait_context \<Rightarrow> peer_request \<Rightarrow> effect list" where
  "on_peer_request c req =
     (if request_from req \<noteq> partner_public_key c then []
      else
        (case find (\<lambda>n. tlv_type n = 0) (request_records req) of
           None \<Rightarrow> []
         | Some idRecord \<Rightarrow>
             if tlv_value idRecord \<noteq> invoice_id (accept_request c) then []
             else
               [RemoveAllListeners, StopService, CancelHodlInvoice (tlv_value idRecord),
                LogInfo ''received_balanced_channel_acceptance''] @
               (case balancedOpenAcceptDetails c (request_records req) of
                  Inr acceptance \<Rightarrow>
                    [ReplySuccess, Callback (Inr acceptance)] @
                    (case callback_throws c acceptance of
                       None \<Rightarrow> []
                     | Some message \<Rightarrow>
                         [ReplyFailure (503, message), Callback (Inl (503, message))])
                | Inl message \<Rightarrow>
                    [ReplyFailure (503, message), Callback (Inl (503, message))])))"

text \<open>The listener of the \<^verbatim>\<open>error\<close> event of the invoice subscription (lines 618-626).\<close>

definition on_invoice_error :: "effect list" where
  "on_invoice_error =
     [RemoveAllListeners, StopService,
      Callback (Inl (503, ''UnexpectedErrorWaitingForChannelAccept''))]"

text \<open>
  The listener of \<^verbatim>\<open>invoice_updated\<close> (lines 629-658). The parser and the call of
  \<^verbatim>\<open>cbk\<close> with the acceptance are inside one \<^verbatim>\<open>try\<close>, whose \<^verbatim>\<open>catch\<close> calls
  \<^verbatim>\<open>cbk\<close> with the error it caught.
\<close>

definition on_invoice_updated :: "wait_context \<Rightarrow> invoice \<Rightarrow> effect list" where
  "on_invoice_updated c updated =
     (if \<not> is_confirmed updated then []
      else
        [LogInfo ''received_peer_balanced_channel_acceptance'', RemoveAllListeners,
         StopService] @
        (case find (\<lambda>payment. find (\<lambda>n. tlv_type n = multiSigType c) (payment_messages payment)
                                 \<noteq> None) (payments updated) of
           None \<Rightarrow> [Callback (Inl (503, ''ExpectedPaymentWithPeerChannelDetails''))]
         | Some acceptDetailsPayment \<Rightarrow>
             (case balancedOpenAcceptDetails c (payment_messages acceptDetailsPayment) of
                Inr acceptance \<Rightarrow>
                  Callback (Inr acceptance) #
                  (case callback_throws c acceptance of
                     None \<Rightarrow> []
                   | Some message \<Rightarrow> [Callback (Inl (503, message))])
              | Inl message \<Rightarrow> [Callback (Inl (503, message))])))"

text \<open>
  The listeners that are registered and what has been done so far. The invoice
  subscription is an event emitter: \<^verbatim>\<open>removeAllListeners\<close> leaves it without
  listeners. The real peer-message service calls its handler until it is stopped; the
  dummy never registers the handler and its \<^verbatim>\<open>stop\<close> does nothing.
\<close>

record wait_state =
  invoice_listeners :: bool
  service_listening :: bool
  wait_service :: p2p_service
  effects :: "effect list"

fun perform :: "wait_state \<Rightarrow> effect \<Rightarrow> wait_state" where
  "perform s RemoveAllListeners =
     s\<lparr>invoice_listeners := False, effects := effects s @ [RemoveAllListeners]\<rparr>"
| "perform s StopService =
     (case wait_service s of
        DummyService \<Rightarrow> s\<lparr>effects := effects s @ [StopService]\<rparr>
      | PeerRequestsService \<Rightarrow>
          s\<lparr>service_listening := False, effects := effects s @ [StopService]\<rparr>)"
| "perform s e = s\<lparr>effects := effects s @ [e]\<rparr>"

text \<open>
  The body of \<^verbatim>\<open>waitForAccept\<close> up to the registration of the listeners (lines
  566-629), for the service the \<^verbatim>\<open>p2pService\<close> task returned.
\<close>

definition waitForAccept :: "p2p_service \<Rightarrow> wait_state" where
  "waitForAccept service =
     \<lparr>invoice_listeners = True,
      service_listening = (case service of DummyService \<Rightarrow> False | PeerRequestsService \<Rightarrow> True),
      wait_service = service,
      effects = [LogInfo ''waiting_for_peer_balanced_channel_acceptance'']\<rparr>"

text \<open>
  What arrives while the task waits: a request of a peer (of the type the handler was
  registered for, \<^verbatim>\<open>accept_request\<close>), an error of the invoice subscription, an update
  of the invoice. An event runs its handler when the handler is still registered.
\<close>

datatype wait_event =
  PeerRequest peer_request
  | InvoiceError
  | InvoiceUpdated invoice

fun deliver :: "wait_context \<Rightarrow> wait_state \<Rightarrow> wait_event \<Rightarrow> wait_state" where
  "deliver c s (PeerRequest req) =
     (if service_listening s then foldl perform s (on_peer_request c req) else s)"
| "deliver c s InvoiceError =
     (if invoice_listeners s then foldl perform s on_invoice_error else s)"
| "deliver c s (InvoiceUpdated updated) =
     (if invoice_listeners s then foldl perform s (on_invoice_updated c updated) else s)"

definition wait_run :: "wait_context \<Rightarrow> wait_state \<Rightarrow> wait_event list \<Rightarrow> wait_state" where
  "wait_run c s events = foldl (deliver c) s events"

text \<open>The arguments of the calls of the callback of the task, in order.\<close>

fun callbacks :: "effect list \<Rightarrow> (error + accept_details) list" where
  "callbacks [] = []"
| "callbacks (Callback r # es) = r # callbacks es"
| "callbacks (e # es) = callbacks es"

text \<open>
  The acceptance an event carries when it fires its path with a valid payload: a
  request from the partner whose record of type 0 is the id of the acceptance invoice
  and whose records parse, or a confirmed invoice with a payment that has a record of
  the multisig key type and whose records parse.
\<close>

fun accepted_details :: "wait_context \<Rightarrow> wait_event \<Rightarrow> accept_details option" where
  "accepted_details c (PeerRequest req) =
     (if request_from req = partner_public_key c then
        (case find (\<lambda>n. tlv_type n = 0) (request_records req) of
           None \<Rightarrow> None
         | Some idRecord \<Rightarrow>
             if tlv_value idRecord = invoice_id (accept_request c) then
               (case balancedOpenAcceptDetails c (request_records req) of
                  Inr acceptance \<Rightarrow> Some acceptance
                | Inl message \<Rightarrow> None)
             else None)
      else None)"
| "accepted_details c InvoiceError = None"
| "accepted_details c (InvoiceUpdated updated) =
     (if is_confirmed updated then
        (case find (\<lambda>payment. find (\<lambda>n. tlv_type n = multiSigType c) (payment_messages payment)
                                 \<noteq> None) (payments updated) of
           None \<Rightarrow> None
         | Some payment \<Rightarrow>
             (case balancedOpenAcceptDetails c (payment_messages payment) of
                Inr acceptance \<Rightarrow> Some acceptance
              | Inl message \<Rightarrow> None))
      else None)"

text \<open>
  A request correlates with this open when it is from the partner and its first record
  of type 0 holds the id of the acceptance invoice.
\<close>

definition correlates :: "wait_context \<Rightarrow> peer_request \<Rightarrow> bool" where
  "correlates c req =
     (request_from req = partner_public_key c \<and>
      (case find (\<lambda>n. tlv_type n = 0) (request_records req) of
         None \<Rightarrow> False
       | Some idRecord \<Rightarrow> tlv_value idRecord = invoice_id (accept_request c)))"

fun is_peer_request :: "wait_event \<Rightarrow> bool" where
  "is_peer_request (PeerRequest req) = True"
| "is_peer_request _ = False"

subsection \<open>The joint funding transaction\<close>

definition new_Transaction :: transaction where
  "new_Transaction = \<lparr>tx_version = 1, tx_locktime = 0, ins = [], outs = []\<rparr>"

text \<open>
  The methods of the transaction of the library check the types of their arguments and
  throw (\<open>None\<close>) on a mismatch: \<^verbatim>\<open>addInput\<close> wants a hash of 32 bytes and an index and a
  sequence that are unsigned 32-bit integers, \<^verbatim>\<open>addOutput\<close> a value that is a number of
  satoshis: an integer from 0 to 21 * 10^14.
\<close>

definition is_Hash256bit :: "byte list \<Rightarrow> bool" where
  "is_Hash256bit hash = (length hash = 32)"

definition is_UInt32 :: "nat \<Rightarrow> bool" where
  "is_UInt32 n = (n < 2 ^ 32)"

fun is_Satoshi :: "js_number \<Rightarrow> bool" where
  "is_Satoshi (Num a) = (a = of_int \<lfloor>a\<rfloor> \<and> 0 \<le> a \<and> a \<le> 2100000000000000)"
| "is_Satoshi NaN = False"

definition addInput :: "transaction \<Rightarrow> byte list \<Rightarrow> nat \<Rightarrow> nat \<Rightarrow> transaction option" where
  "addInput tx hash index sequence =
     (if is_Hash256bit hash \<and> is_UInt32 index \<and> is_UInt32 sequence
      then Some (tx\<lparr>ins := ins tx @
             [\<lparr>input_hash = hash, input_index = index, input_sequence = sequence,
               input_witness = []\<rparr>]\<rparr>)
      else None)"

text \<open>\<^verbatim>\<open>inputs.forEach(n => tx.addInput(n.hash, n.index, n.sequence))\<close>, line 716.\<close>

fun forEach_addInput :: "transaction \<Rightarrow> tx_input list \<Rightarrow> transaction option" where
  "forEach_addInput tx [] = Some tx"
| "forEach_addInput tx (n # inputs) =
     (case addInput tx (input_hash n) (input_index n) (input_sequence n) of
        None \<Rightarrow> None
      | Some added \<Rightarrow> forEach_addInput added inputs)"

text \<open>\<^verbatim>\<open>setWitness\<close> throws on an index that is not one of an input (\<open>None\<close>).\<close>

definition setWitness :: "transaction \<Rightarrow> nat option \<Rightarrow> byte list list \<Rightarrow> transaction option" where
  "setWitness tx vin witness =
     (case vin of
        None \<Rightarrow> None
      | Some i \<Rightarrow>
          if i < length (ins tx)
          then Some (tx\<lparr>ins := (ins tx)[i := (ins tx ! i)\<lparr>input_witness := witness\<rparr>]\<rparr>)
          else None)"

definition addOutput :: "transaction \<Rightarrow> byte list \<Rightarrow> js_number \<Rightarrow> transaction option" where
  "addOutput tx script tokens =
     (if is_Satoshi tokens
      then Some (tx\<lparr>outs := outs tx @ [\<lparr>output_script = script, output_value = tokens\<rparr>]\<rparr>)
      else None)"

text \<open>The comparator of the sort of the inputs (lines 709-714).\<close>

definition input_compare :: "tx_input \<Rightarrow> tx_input \<Rightarrow> int" where
  "input_compare a b =
     (let aHash = bufferAsHex (input_hash a);
          bHash = bufferAsHex (input_hash b);
          byHash = localeCompare aHash bHash
      in if byHash \<noteq> 0 then byHash else int (input_index a) - int (input_index b))"

text \<open>
  The inputs of the joint transaction for a list of outpoints \<^verbatim>\<open>utxos\<close> (transaction
  id and output index), mapped and sorted (lines 702-714).
\<close>

definition sorted_inputs :: "(string \<times> nat) list \<Rightarrow> tx_input list" where
  "sorted_inputs utxos =
     array_sort input_compare
       (map (\<lambda>(transaction_id, transaction_vout).
               \<lparr>input_hash = idAsHash transaction_id, input_index = transaction_vout,
                input_sequence = 0, input_witness = []\<rparr>) utxos)"

text \<open>\<^verbatim>\<open>halfSign\<close>; \<open>None\<close> when a method of the transaction throws.\<close>

definition halfSign ::
  "js_number \<Rightarrow> transit_funding \<Rightarrow> funding_address \<Rightarrow> accept_details \<Rightarrow> transaction option" where
  "halfSign capacity funding address acceptance =
     (let utxos = [(funding_transaction_id funding, funding_transaction_vout funding),
                   (accept_transaction_id acceptance, accept_transaction_vout acceptance)];
          inputs = sorted_inputs utxos
      in case forEach_addInput new_Transaction inputs of
           None \<Rightarrow> None
         | Some tx \<Rightarrow>
             (let partnersVin =
                    findIndex (\<lambda>input. input_index input = accept_transaction_vout acceptance \<and>
                                        input_hash input =
                                          idAsHash (accept_transaction_id acceptance))
                      (ins tx);
                  partnerWitnessStack = [accept_funding_signature acceptance,
                                         accept_transit_public_key acceptance]
              in case setWitness tx partnersVin (map hexAsBuffer partnerWitnessStack) of
                   None \<Rightarrow> None
                 | Some half \<Rightarrow> addOutput half (hexAsBuffer (address_script address)) capacity))"

text \<open>
  The tasks that run inside the call \<^verbatim>\<open>cbk(null, acceptance)\<close> of \<^verbatim>\<open>waitForAccept\<close>:
  \<^verbatim>\<open>deriveFundingAddress\<close>, whose other dependency \<^verbatim>\<open>getMultiSigKey\<close> has completed
  (\<open>own_multisig_key\<close>), and inside its callback \<^verbatim>\<open>halfSign\<close>, whose other dependencies
  \<^verbatim>\<open>askForCapacity\<close> and \<^verbatim>\<open>askForFunding\<close> have completed (\<open>capacity\<close>, \<open>funding\<close>); the
  tasks that depend on \<^verbatim>\<open>halfSign\<close> call the node. The result is the message of the error
  that comes out of the call, if one does; the message itself is written by the library
  (\<open>thrown\<close>, a parameter).
\<close>

definition tasks_in_callback ::
  "(nat \<Rightarrow> byte list list \<Rightarrow> 'redeem) \<Rightarrow> ('redeem \<Rightarrow> byte list \<times> byte list) \<Rightarrow> string \<Rightarrow>
   string \<Rightarrow> js_number \<Rightarrow> transit_funding \<Rightarrow> accept_details \<Rightarrow> string option" where
  "tasks_in_callback p2ms p2wsh thrown own_multisig_key capacity funding acceptance =
     (let address = deriveFundingAddress p2ms p2wsh own_multisig_key
                      (accept_multisig_public_key acceptance)
      in case halfSign capacity funding address acceptance of
           None \<Rightarrow> Some thrown
         | Some tx \<Rightarrow> None)"

subsection \<open>Definitions for the properties\<close>

text \<open>The number the sort of the records compares: \<^verbatim>\<open>Number(message.type)\<close>.\<close>

definition numeric_type :: "tlv \<Rightarrow> int" where
  "numeric_type m = js_Number (tlv_type m)"

text \<open>
  The encoding of the type in the words of the specification: the number in \<open>k\<close> bytes,
  most significant byte first; and the number a list of bytes denotes, read that way.
\<close>

fun big_endian :: "nat \<Rightarrow> nat \<Rightarrow> byte list" where
  "big_endian 0 n = []"
| "big_endian (Suc k) n = big_endian k (n div 256) @ [of_nat (n mod 256)]"

definition be_value :: "byte list \<Rightarrow> nat" where
  "be_value bytes = foldl (\<lambda>acc b. 256 * acc + unat b) 0 bytes"

text \<open>
  Concrete values for the parameters, to run the definitions on: a table of record
  types, the six records of a request, two public keys, and stand-ins for the script
  builders of bitcoinjs-lib that keep the order of the keys visible.
\<close>

definition example_types :: key_types where
  "example_types =
     \<lparr>type_accept_request = 80501, type_channel_capacity = 80502,
      type_funding_tx_fee_rate = 80504, type_multisig_public_key = 80505,
      type_transit_tx_id = 80507, type_transit_tx_vout = 80508\<rparr>"

definition example_messages :: "tlv list" where
  "example_messages =
     request_messages example_types ''aa01'' 2000000 10 ''02c1'' ''00ff'' 1"

definition standin_p2ms :: "nat \<Rightarrow> byte list list \<Rightarrow> byte list" where
  "standin_p2ms m pubkeys =
     of_nat (80 + m) # concat (map (\<lambda>k. of_nat (length k) # k) pubkeys) @
       [of_nat (80 + length pubkeys), 174]"

definition standin_p2wsh :: "byte list \<Rightarrow> byte list \<times> byte list" where
  "standin_p2wsh redeem = (redeem, 0 # of_nat (length redeem) # redeem)"

definition example_own_key :: string where
  "example_own_key = ''03b1a2c3d4e5f60718293a4b5c6d7e8f9001122334455667788990aabbccddeeff''"

definition example_peer_key :: string where
  "example_peer_key = ''02c1a2c3d4e5f60718293a4b5c6d7e8f9001122334455667788990aabbccddeeff''"

text \<open>The handler an event runs, and whether that handler is still registered.\<close>

definition handler_effects :: "wait_context \<Rightarrow> wait_event \<Rightarrow> effect list" where
  "handler_effects c e =
     (case e of PeerRequest req \<Rightarrow> on_peer_request c req
      | InvoiceError \<Rightarrow> on_invoice_error
      | InvoiceUpdated updated \<Rightarrow> on_invoice_updated c updated)"

definition listening :: "wait_state \<Rightarrow> wait_event \<Rightarrow> bool" where
  "listening s e = (if is_peer_request e then service_listening s else invoice_listeners s)"



definition example_own_txid :: string where
  "example_own_txid = ''11222222222222222222222222222222222222222222222222222222222222ff''"

definition example_peer_txid :: string where
  "example_peer_txid = ''2222222222222222222222222222222222222222222222222222222222222200''"

definition example_funding :: transit_funding where
  "example_funding =
     \<lparr>funding_tokens = Num 1000950, funding_inputs = None, funding_transaction = ''0200'',
      funding_transaction_id = example_own_txid, funding_transaction_vout = 1\<rparr>"

definition example_acceptance :: accept_details where
  "example_acceptance =
     \<lparr>accept_funding_signature = ''3044'', accept_multisig_public_key = ''02c1'',
      accept_transaction_id = example_peer_txid, accept_transaction_vout = 0,
      accept_transit_public_key = ''03d2''\<rparr>"

definition example_address :: funding_address where
  "example_address = \<lparr>address_hash = ''ab'', address_script = ''0020ab''\<rparr>"

text \<open>The outpoints a transaction spends, as transaction id (hex) and output index.\<close>

definition outpoints :: "transaction \<Rightarrow> (string \<times> nat) list" where
  "outpoints tx = map (\<lambda>input. (bufferAsHex (rev (input_hash input)), input_index input)) (ins tx)"

text \<open>
  An acceptance invoice, the result of \<^verbatim>\<open>messagesToPush\<close> it was created for, a stand-in
  for the parser of the acceptance records, and requests and invoices to deliver.
\<close>

definition example_invoice :: created_invoice where
  "example_invoice = \<lparr>invoice_id = ''1f2e3d4c'', invoice_request = ''lnbcrt10n1''\<rparr>"

definition example_pushed :: pushed_messages where
  "example_pushed =
     \<lparr>push_messages = array_sort type_compare example_messages,
      push_digest = ''9a8b7c6d'',
      push_id = ''55aa''\<rparr>"

text \<open>A node that gives the invoice it creates an id of its own (the payment hash).\<close>

definition example_createInvoice :: "string \<Rightarrow> nat \<Rightarrow> error + created_invoice" where
  "example_createInvoice description_hash tokens = Inr example_invoice"

definition example_parse :: "tlv list \<Rightarrow> string + accept_details" where
  "example_parse records =
     (case find (\<lambda>n. tlv_type n = 80505) records of
        None \<Rightarrow> Inl ''ExpectedRemoteMultiSigPublicKey''
      | Some key \<Rightarrow>
          Inr \<lparr>accept_funding_signature = ''3044'', accept_multisig_public_key = tlv_value key,
               accept_transaction_id = example_peer_txid, accept_transaction_vout = 0,
               accept_transit_public_key = ''03d2''\<rparr>)"

text \<open>
  A parser for an acceptance whose output index is \<open>2^40 - 1\<close>, and the message of the
  error of the library.
\<close>

definition example_parse_wide :: "tlv list \<Rightarrow> string + accept_details" where
  "example_parse_wide records =
     (case find (\<lambda>n. tlv_type n = 80505) records of
        None \<Rightarrow> Inl ''ExpectedRemoteMultiSigPublicKey''
      | Some key \<Rightarrow>
          Inr \<lparr>accept_funding_signature = ''3044'', accept_multisig_public_key = tlv_value key,
               accept_transaction_id = example_peer_txid,
               accept_transaction_vout = 1099511627775,
               accept_transit_public_key = ''03d2''\<rparr>)"

definition example_thrown :: string where
  "example_thrown = ''Expected property 1 of type UInt32, got Number 1099511627775''"

definition example_context :: wait_context where
  "example_context =
     \<lparr>partner_public_key = ''02ab'', accept_request = example_invoice, multiSigType = 80505,
      balancedOpenAcceptDetails = example_parse,
      callback_throws = tasks_in_callback standin_p2ms standin_p2wsh example_thrown
                          example_own_key (Num 2000000) example_funding\<rparr>"

definition example_wide_context :: wait_context where
  "example_wide_context =
     \<lparr>partner_public_key = ''02ab'', accept_request = example_invoice, multiSigType = 80505,
      balancedOpenAcceptDetails = example_parse_wide,
      callback_throws = tasks_in_callback standin_p2ms standin_p2wsh example_thrown
                          example_own_key (Num 2000000) example_funding\<rparr>"

definition example_accepted :: accept_details where
  "example_accepted =
     \<lparr>accept_funding_signature = ''3044'', accept_multisig_public_key = ''02c1'',
      accept_transaction_id = example_peer_txid, accept_transaction_vout = 0,
      accept_transit_public_key = ''03d2''\<rparr>"

definition example_wide :: accept_details where
  "example_wide =
     \<lparr>accept_funding_signature = ''3044'', accept_multisig_public_key = ''02c1'',
      accept_transaction_id = example_peer_txid, accept_transaction_vout = 1099511627775,
      accept_transit_public_key = ''03d2''\<rparr>"

definition example_request :: peer_request where
  "example_request =
     \<lparr>request_from = ''02ab'',
      request_records = [\<lparr>tlv_type = 0, tlv_value = ''1f2e3d4c''\<rparr>,
                         \<lparr>tlv_type = 80505, tlv_value = ''02c1''\<rparr>]\<rparr>"

definition example_digest_request :: peer_request where
  "example_digest_request =
     \<lparr>request_from = ''02ab'',
      request_records = [\<lparr>tlv_type = 0, tlv_value = ''9a8b7c6d''\<rparr>,
                         \<lparr>tlv_type = 80505, tlv_value = ''02c1''\<rparr>]\<rparr>"

definition example_settled :: invoice where
  "example_settled =
     \<lparr>is_confirmed = True,
      payments = [\<lparr>payment_messages = [\<lparr>tlv_type = 80505, tlv_value = ''02c1''\<rparr>]\<rparr>]\<rparr>"

definition example_settled_bare :: invoice where
  "example_settled_bare =
     \<lparr>is_confirmed = True,
      payments = [\<lparr>payment_messages = [\<lparr>tlv_type = 80502, tlv_value = ''1e8480''\<rparr>]\<rparr>]\<rparr>"

definition example_open :: invoice where
  "example_open = \<lparr>is_confirmed = False, payments = []\<rparr>"

text \<open>A run of the task graph up to the start of \<^verbatim>\<open>p2pService\<close>, and the state it ends in.\<close>

definition run_to_p2pService :: "event list" where
  "run_to_p2pService =
     [Start Validate, Succeed Validate,
      Start GetChainFee, Start GetMultiSigKey, Start Connect, Start GetTransitKey,
      Start ProbeForRouteToNode, Start Network,
      Succeed GetChainFee, Succeed GetMultiSigKey, Succeed Connect, Succeed GetTransitKey,
      Succeed ProbeForRouteToNode, Succeed Network,
      Start AskForCapacity, Answer (Num 2000000),
      Start AskForFeeRate, Succeed AskForFeeRate,
      Start AskForFunding, Succeed AskForFunding,
      Start GetRefundTransaction, Start MessagesToPush,
      Succeed GetRefundTransaction, Succeed MessagesToPush,
      Start CreateAcceptRequest, Succeed CreateAcceptRequest,
      Start PushRequest, Start P2pService]"

definition state_at_p2pService :: auto_state where
  "state_at_p2pService =
     \<lparr>started = [Validate, GetChainFee, GetMultiSigKey, Connect, GetTransitKey,
                 ProbeForRouteToNode, Network, AskForCapacity, AskForFeeRate, AskForFunding,
                 GetRefundTransaction, MessagesToPush, CreateAcceptRequest, PushRequest,
                 P2pService],
      completed = [Validate, GetChainFee, GetMultiSigKey, Connect, GetTransitKey,
                   ProbeForRouteToNode, Network, AskForCapacity, AskForFeeRate, AskForFunding,
                   GetRefundTransaction, MessagesToPush, CreateAcceptRequest],
      failed = [], results_askForCapacity = Some (Num 2000000),
      results_p2pService = None, giveTokens_args = []\<rparr>"

section \<open>Properties\<close>

subsection \<open>The capacity prompt and the split\<close>

lemma odd_not_twice: "(of_int (2 * k + 1) :: rat) \<noteq> 2 * of_int m"
proof
  assume "(of_int (2 * k + 1) :: rat) = 2 * of_int m"
  then have "(of_int (2 * k + 1) :: rat) = of_int (2 * m)" by simp
  then have "2 * k + 1 = 2 * m" by (simp only: of_int_eq_iff)
  then show False by presburger
qed

lemma askForCapacity_odd:
  "askForCapacity (Num (of_int (2 * k + 1))) = Inl (400, ''ExpectedEvenCapacityToSplitBalance'')"
  using odd_not_twice [of k "js_trunc (of_int (2 * k + 1) / 2)"]
  by (simp add: askForCapacity_def isNumber_def isOdd_def)

lemma askForCapacity_accepts:
  assumes h: "askForCapacity a = Inr c"
  shows "c = a \<and> (\<exists>k::int. a = Num (of_int (2 * k)))"
proof (cases a)
  case NaN
  with h show ?thesis by (simp add: askForCapacity_def isNumber_def)
next
  case (Num r)
  from h Num have c: "c = a" and z: "r - 2 * of_int (js_trunc (r / 2)) = 0"
    by (auto simp: askForCapacity_def isNumber_def isOdd_def split: if_splits)
  from z have "r = of_int (2 * js_trunc (r / 2))" by simp
  with c Num show ?thesis by blast
qed

lemma giveTokens_even: "giveTokens (Num (of_int (2 * k))) = Num (of_int k)"
  by (simp add: giveTokens_def)

lemma giveTokens_dep: "calls_giveTokens t \<Longrightarrow> AskForCapacity \<in> set (deps t)"
  by (cases t) simp_all

lemma run_inv_initial: "run_inv initial_state"
  by (simp add: run_inv_def initial_state_def)

lemma step_Start:
  assumes "step s (Start t) = Some s'"
  shows "failed s = [] \<and> t \<notin> set (started s) \<and> set (deps t) \<subseteq> set (completed s) \<and>
         started s' = started s @ [t] \<and> completed s' = completed s \<and> failed s' = failed s \<and>
         results_askForCapacity s' = results_askForCapacity s \<and>
         giveTokens_args s' =
           giveTokens_args s @ (if calls_giveTokens t then [results_askForCapacity s] else [])"
  using assms by (simp split: if_splits) auto

lemma step_Succeed:
  assumes "step s (Succeed t) = Some s'"
  shows "running s t \<and> t \<noteq> AskForCapacity \<and> t \<noteq> P2pService \<and>
         started s' = started s \<and> completed s' = completed s @ [t] \<and> failed s' = failed s \<and>
         results_askForCapacity s' = results_askForCapacity s \<and>
         giveTokens_args s' = giveTokens_args s"
  using assms by (simp split: if_splits) auto

lemma step_Fail:
  assumes "step s (Fail t e) = Some s'"
  shows "running s t \<and> t \<noteq> AskForCapacity \<and> t \<noteq> P2pService \<and>
         started s' = started s \<and> completed s' = completed s \<and> failed s' = failed s @ [(t, e)] \<and>
         results_askForCapacity s' = results_askForCapacity s \<and>
         giveTokens_args s' = giveTokens_args s"
  using assms by (simp split: if_splits) auto

lemma step_Answer:
  assumes "step s (Answer a) = Some s'"
  shows "running s AskForCapacity \<and> started s' = started s \<and>
         giveTokens_args s' = giveTokens_args s \<and>
         (case askForCapacity a of
            Inl e \<Rightarrow> completed s' = completed s \<and> failed s' = failed s @ [(AskForCapacity, e)] \<and>
                     results_askForCapacity s' = results_askForCapacity s
          | Inr c \<Rightarrow> completed s' = completed s @ [AskForCapacity] \<and> failed s' = failed s \<and>
                     results_askForCapacity s' = Some c)"
  using assms by (simp split: if_splits sum.splits) auto

lemma step_SendMessageToPeer:
  assumes "step s (SendMessageToPeer err) = Some s'"
  shows "running s P2pService \<and> started s' = started s \<and>
         completed s' = completed s @ [P2pService] \<and> failed s' = failed s \<and>
         results_askForCapacity s' = results_askForCapacity s \<and>
         giveTokens_args s' = giveTokens_args s \<and>
         results_p2pService s' =
           Some (if err \<noteq> None then DummyService else PeerRequestsService)"
  using assms by (simp add: p2pService_def split: if_splits) auto

lemma run_inv_step:
  assumes i: "run_inv s" and st: "step s e = Some s'"
  shows "run_inv s'"
proof (cases e)
  case (Start t)
  note f = step_Start [OF st [unfolded Start]]
  have "calls_giveTokens t \<Longrightarrow> even_capacity (results_askForCapacity s)"
    using giveTokens_dep [of t] f i by (auto simp: run_inv_def)
  with i f show ?thesis
    by (auto simp: run_inv_def)
next
  case (Succeed t)
  note f = step_Succeed [OF st [unfolded Succeed]]
  with i show ?thesis
    by (auto simp: run_inv_def)
next
  case (Fail t err)
  note f = step_Fail [OF st [unfolded Fail]]
  with i show ?thesis
    by (auto simp: run_inv_def)
next
  case (Answer a)
  note f = step_Answer [OF st [unfolded Answer]]
  show ?thesis
  proof (cases "askForCapacity a")
    case (Inl err)
    with f i show ?thesis
      by (auto simp: run_inv_def running_def finished_def)
  next
    case (Inr c)
    from askForCapacity_accepts [OF Inr] have "even_capacity (Some c)"
      by (auto simp: even_capacity_def)
    with Inr f i show ?thesis
      by (auto simp: run_inv_def running_def finished_def)
  qed
next
  case (SendMessageToPeer err)
  note f = step_SendMessageToPeer [OF st [unfolded SendMessageToPeer]]
  with i show ?thesis
    by (auto simp: run_inv_def)
qed

lemma run_inv_exec: "run_inv s \<Longrightarrow> exec s evs = Some s' \<Longrightarrow> run_inv s'"
  by (induction evs arbitrary: s) (auto split: option.splits dest: run_inv_step)

lemma exec_append:
  "exec s (xs @ ys) = (case exec s xs of None \<Rightarrow> None | Some s' \<Rightarrow> exec s' ys)"
  by (induction xs arbitrary: s) (auto split: option.splits)

lemma step_grows:
  "step s e = Some s' \<Longrightarrow>
     (\<exists>fs. failed s' = failed s @ fs) \<and> set (completed s) \<subseteq> set (completed s')"
  by (cases e) (auto simp: p2pService_def split: if_splits sum.splits)

lemma exec_grows:
  "exec s evs = Some s' \<Longrightarrow>
     (\<exists>fs. failed s' = failed s @ fs) \<and> set (completed s) \<subseteq> set (completed s')"
proof (induction evs arbitrary: s)
  case Nil
  then show ?case by simp
next
  case (Cons e evs)
  then obtain s1 where s1: "step s e = Some s1" and r: "exec s1 evs = Some s'"
    by (auto split: option.splits)
  from step_grows [OF s1] Cons.IH [OF r] show ?case by auto
qed


text \<open>
  C6: for an even capacity \<^verbatim>\<open>giveTokens(capacity)\<close> is \<^verbatim>\<open>capacity / 2\<close>, and in every run
  of the task graph each argument \<^verbatim>\<open>giveTokens\<close> is applied to is an even integer: the
  tasks that call it start only after the capacity prompt has accepted its answer.
\<close>

theorem giveTokens_half_never_odd:
  assumes "exec initial_state evs = Some s"
  shows "(\<forall>k::int. giveTokens (Num (of_int (2 * k))) = js_div (Num (of_int (2 * k))) (Num 2)) \<and>
         (\<forall>a\<in>set (giveTokens_args s).
            \<exists>k::int. a = Some (Num (of_int (2 * k))) \<and> giveTokens (Num (of_int (2 * k))) = Num (of_int k))"
proof -
  have "run_inv s" using run_inv_exec [OF run_inv_initial assms] .
  then have "\<forall>a\<in>set (giveTokens_args s). even_capacity a" by (simp add: run_inv_def)
  then have "\<forall>a\<in>set (giveTokens_args s).
      \<exists>k::int. a = Some (Num (of_int (2 * k))) \<and> giveTokens (Num (of_int (2 * k))) = Num (of_int k)"
    unfolding even_capacity_def using giveTokens_even by blast
  moreover have "\<forall>k::int. giveTokens (Num (of_int (2 * k))) = js_div (Num (of_int (2 * k))) (Num 2)"
    by (simp add: giveTokens_def)
  ultimately show ?thesis by blast
qed

lemma askForCapacity_2000000: "askForCapacity (Num 2000000) = Inr (Num 2000000)"
  by (simp add: askForCapacity_def isNumber_def isOdd_def js_trunc_def)

lemma exec_run_even:
  "exec initial_state run_even =
     Some \<lparr>started = [Validate, Connect, ProbeForRouteToNode, AskForCapacity, TestOpenChannel],
           completed = [Validate, Connect, ProbeForRouteToNode, AskForCapacity],
           failed = [], results_askForCapacity = Some (Num 2000000),
           results_p2pService = None, giveTokens_args = [Some (Num 2000000)]\<rparr>"
  by (simp add: run_even_def initial_state_def running_def finished_def askForCapacity_2000000)

theorem giveTokens_half_never_odd_witness:
  "\<exists>s. exec initial_state run_even = Some s \<and> giveTokens_args s = [Some (Num 2000000)] \<and>
       giveTokens (Num 2000000) = js_div (Num 2000000) (Num 2) \<and>
       (\<exists>k::int. Some (Num 2000000) = Some (Num (of_int (2 * k))) \<and>
                 giveTokens (Num (of_int (2 * k))) = Num (of_int k))"
  using giveTokens_half_never_odd [OF exec_run_even] exec_run_even
  by (auto simp: giveTokens_def)


lemma askForCapacity_1000001: "askForCapacity (Num 1000001) = Inl capacity_error"
  using askForCapacity_odd [of 500000] by (simp add: capacity_error_def)

lemma exec_run_odd:
  "exec initial_state run_odd =
     Some \<lparr>started = [Validate, Connect, ProbeForRouteToNode, AskForCapacity],
           completed = [Validate, Connect, ProbeForRouteToNode],
           failed = [(AskForCapacity, capacity_error)], results_askForCapacity = None,
           results_p2pService = None, giveTokens_args = []\<rparr>"
  by (simp add: run_odd_def initial_state_def running_def finished_def askForCapacity_1000001)

text \<open>
  C8 as stated fails: in the run \<open>run_odd\<close> the capacity 1,000,001 is rejected, and by
  then the peer connection and the route probe, both calls of the node and the network,
  have been started and have completed.
\<close>

theorem odd_capacity_after_network_calls_counterexample:
  "exec initial_state run_odd =
     Some \<lparr>started = [Validate, Connect, ProbeForRouteToNode, AskForCapacity],
           completed = [Validate, Connect, ProbeForRouteToNode],
           failed = [(AskForCapacity, capacity_error)], results_askForCapacity = None,
           results_p2pService = None, giveTokens_args = []\<rparr> \<and>
   filter calls_lnd [Validate, Connect, ProbeForRouteToNode, AskForCapacity] =
     [Connect, ProbeForRouteToNode]"
  using exec_run_odd by simp

text \<open>
  C8, amended: when an odd capacity is entered at the prompt, the capacity task calls
  back with the even-capacity validation error, the operation fails (with that error
  when no task failed before), the funding task and every other task that depends on
  the capacity never start, so no funding transaction is built; the peer connection and
  the route probe have completed before the prompt.
\<close>

theorem odd_capacity_fails_before_funding:
  assumes run: "exec initial_state (pre @ Answer (Num (of_int (2 * k + 1))) # post) = Some s"
  shows "(AskForCapacity, capacity_error) \<in> set (failed s) \<and>
         operation_error s \<noteq> None \<and>
         ((\<exists>s1. exec initial_state pre = Some s1 \<and> failed s1 = []) \<longrightarrow>
            operation_error s = Some capacity_error) \<and>
         AskForFunding \<notin> set (started s) \<and>
         (\<forall>t\<in>set (started s). AskForCapacity \<notin> set (deps t)) \<and>
         Connect \<in> set (completed s) \<and> ProbeForRouteToNode \<in> set (completed s)"
proof -
  let ?a = "Num (of_int (2 * k + 1))"
  from run obtain s1 s2 where p: "exec initial_state pre = Some s1"
    and a: "step s1 (Answer ?a) = Some s2" and q: "exec s2 post = Some s"
    by (auto simp: exec_append split: option.splits)
  have odd: "askForCapacity ?a = Inl capacity_error"
    using askForCapacity_odd [of k] by (simp add: capacity_error_def)
  from step_Answer [OF a] odd
  have r1: "running s1 AskForCapacity" and f2: "failed s2 = failed s1 @ [(AskForCapacity, capacity_error)]"
    by simp_all
  from exec_grows [OF q] obtain fs where fs: "failed s = failed s2 @ fs"
    and c2: "set (completed s2) \<subseteq> set (completed s)" by blast
  have i1: "run_inv s1" using run_inv_exec [OF run_inv_initial p] .
  have i: "run_inv s" using run_inv_exec [OF run_inv_initial run] .
  have m: "(AskForCapacity, capacity_error) \<in> set (failed s)"
    using fs f2 by simp
  then have nc: "AskForCapacity \<notin> set (completed s)"
    using i by (force simp: run_inv_def)
  have nd: "\<forall>t\<in>set (started s). AskForCapacity \<notin> set (deps t)"
    using i nc by (auto simp: run_inv_def)
  have nf: "AskForFunding \<notin> set (started s)"
    using nd by auto
  have "\<forall>t\<in>set (started s1). set (deps t) \<subseteq> set (completed s1)"
    using i1 by (simp add: run_inv_def)
  moreover have "AskForCapacity \<in> set (started s1)"
    using r1 by (simp add: running_def)
  ultimately have "set (deps AskForCapacity) \<subseteq> set (completed s1)"
    by (rule bspec)
  moreover have "set (completed s1) \<subseteq> set (completed s)"
    using step_grows [OF a] c2 by blast
  ultimately have cp: "Connect \<in> set (completed s) \<and> ProbeForRouteToNode \<in> set (completed s)"
    by auto
  have oe: "operation_error s \<noteq> None"
    using fs f2 by (cases "failed s1") (auto simp: operation_error_def split: prod.splits)
  have first: "(\<exists>s1. exec initial_state pre = Some s1 \<and> failed s1 = []) \<longrightarrow>
      operation_error s = Some capacity_error"
    using p fs f2 by (auto simp: operation_error_def)
  from m oe first nf nd cp show ?thesis by blast
qed

theorem odd_capacity_fails_before_funding_witness:
  "\<exists>s. exec initial_state run_odd = Some s \<and>
       (AskForCapacity, capacity_error) \<in> set (failed s) \<and>
       operation_error s = Some capacity_error \<and>
       AskForFunding \<notin> set (started s) \<and>
       Connect \<in> set (completed s) \<and> ProbeForRouteToNode \<in> set (completed s)"
proof -
  let ?pre = "[Start Validate, Succeed Validate, Start Connect, Start ProbeForRouteToNode,
      Succeed Connect, Succeed ProbeForRouteToNode, Start AskForCapacity]"
  let ?s = "\<lparr>started = [Validate, Connect, ProbeForRouteToNode, AskForCapacity],
           completed = [Validate, Connect, ProbeForRouteToNode],
           failed = [(AskForCapacity, capacity_error)], results_askForCapacity = None,
           results_p2pService = None, giveTokens_args = []\<rparr>"
  have e: "exec initial_state (?pre @ Answer (Num (of_int (2 * 500000 + 1))) # []) = Some ?s"
    using exec_run_odd by (simp add: run_odd_def)
  have pre: "\<exists>s1. exec initial_state ?pre = Some s1 \<and> failed s1 = []"
    by (simp add: initial_state_def running_def finished_def)
  from odd_capacity_fails_before_funding [OF e] pre
  have "(AskForCapacity, capacity_error) \<in> set (failed ?s) \<and>
       operation_error ?s = Some capacity_error \<and>
       AskForFunding \<notin> set (started ?s) \<and>
       Connect \<in> set (completed ?s) \<and> ProbeForRouteToNode \<in> set (completed ?s)"
    by blast
  with exec_run_odd show ?thesis by blast
qed

subsection \<open>The multisig address\<close>

lemma hexDigit_code: "n < 16 \<Longrightarrow> (of_char (hexDigit n) :: nat) = (if n < 10 then 48 + n else 87 + n)"
  by (simp add: hexDigit_def)

lemma hexDigitValue_hexDigit: "n < 16 \<Longrightarrow> hexDigitValue (hexDigit n) = Some n"
  by (simp add: hexDigitValue_def hexDigit_code Let_def)

lemma byte_split: "(of_nat (16 * (unat b div 16) + unat b mod 16) :: byte) = b"
  by simp

lemma hexAsBuffer_byteAsHex: "hexAsBuffer (byteAsHex b @ rest) = b # hexAsBuffer rest"
proof -
  have "unat b < 256" using unsigned_less [of b] by simp
  then have h: "unat b div 16 < 16" and l: "unat b mod 16 < 16" by simp_all
  show ?thesis
    by (simp add: byteAsHex_def hexDigitValue_hexDigit [OF h] hexDigitValue_hexDigit [OF l])
qed

lemma hexAsBuffer_bufferAsHex: "hexAsBuffer (bufferAsHex bs) = bs"
proof (induction bs)
  case Nil
  show ?case by (simp add: bufferAsHex_def)
next
  case (Cons b bs)
  have "bufferAsHex (b # bs) = byteAsHex b @ bufferAsHex bs" by (simp add: bufferAsHex_def)
  with Cons show ?case by (simp add: hexAsBuffer_byteAsHex)
qed

lemma string_less_irrefl: "\<not> string_less a a"
  by (induction a) simp_all

lemma string_less_asym: "string_less a b \<Longrightarrow> \<not> string_less b a"
  by (induction a b rule: string_less.induct) (auto split: if_splits)

lemma string_less_total: "\<not> string_less a b \<Longrightarrow> \<not> string_less b a \<Longrightarrow> a = b"
  by (induction a b rule: string_less.induct) (auto split: if_splits)

lemma hexDigit_mono: "m < 16 \<Longrightarrow> n < 16 \<Longrightarrow>
   ((of_char (hexDigit m) :: nat) < of_char (hexDigit n)) = (m < n)"
  by (auto simp: hexDigit_code)


lemma hex_pair_less:
  assumes "h1 < 16" "l1 < 16" "h2 < 16" "l2 < 16"
  shows "string_less (hexDigit h1 # hexDigit l1 # xs) (hexDigit h2 # hexDigit l2 # ys) =
     (if 16 * h1 + l1 < 16 * h2 + l2 then True
      else if 16 * h2 + l2 < 16 * h1 + l1 then False
      else string_less xs ys)"
proof -
  have s: "string_less (hexDigit h1 # hexDigit l1 # xs) (hexDigit h2 # hexDigit l2 # ys) =
     (if h1 < h2 then True else if h2 < h1 then False
      else if l1 < l2 then True else if l2 < l1 then False else string_less xs ys)"
    using assms by (simp add: hexDigit_mono)
  consider "h1 < h2" | "h2 < h1" | "h1 = h2" "l1 < l2" | "h1 = h2" "l2 < l1" | "h1 = h2" "l1 = l2"
    by linarith
  then show ?thesis
  proof cases
    case 1
    with assms have "16 * h1 + l1 < 16 * h2 + l2" by linarith
    with 1 s show ?thesis by simp
  next
    case 2
    with assms have "16 * h2 + l2 < 16 * h1 + l1" by linarith
    with 2 s show ?thesis by simp
  next
    case 3
    with s show ?thesis by simp
  next
    case 4
    with s show ?thesis by simp
  next
    case 5
    with s show ?thesis by simp
  qed
qed

lemma string_less_byteAsHex:
  "string_less (byteAsHex x @ xs) (byteAsHex y @ ys) =
     (if x < y then True else if y < x then False else string_less xs ys)"
proof -
  have bx: "unat x < 256" using unsigned_less [of x] by simp
  have by': "unat y < 256" using unsigned_less [of y] by simp
  have hx: "unat x div 16 < 16" and lx: "unat x mod 16 < 16" using bx by simp_all
  have hy: "unat y div 16 < 16" and ly: "unat y mod 16 < 16" using by' by simp_all
  have ex: "16 * (unat x div 16) + unat x mod 16 = unat x" by simp
  have ey: "16 * (unat y div 16) + unat y mod 16 = unat y" by simp
  have "string_less (byteAsHex x @ xs) (byteAsHex y @ ys) =
     (if unat x < unat y then True else if unat y < unat x then False else string_less xs ys)"
    using hex_pair_less [OF hx lx hy ly, of xs ys] unfolding ex ey
    by (simp add: byteAsHex_def)
  then show ?thesis by (simp add: word_less_nat_alt)
qed


lemma string_less_bufferAsHex: "string_less (bufferAsHex a) (bufferAsHex b) = bytes_less a b"
proof (induction a b rule: bytes_less.induct)
  case 1
  show ?case by (simp add: bufferAsHex_def)
next
  case (2 y ys)
  show ?case by (simp add: bufferAsHex_def byteAsHex_def)
next
  case (3 x xs)
  show ?case by (simp add: bufferAsHex_def byteAsHex_def)
next
  case (4 x xs y ys)
  have "bufferAsHex (x # xs) = byteAsHex x @ bufferAsHex xs"
    and "bufferAsHex (y # ys) = byteAsHex y @ bufferAsHex ys"
    by (simp_all add: bufferAsHex_def)
  with 4 show ?case by (simp add: string_less_byteAsHex)
qed

lemma array_sort_pair:
  "array_sort compare [a, b] = (if compare b a < 0 then [b, a] else [a, b])"
  by (simp add: array_sort_def)

lemma sort_keys_swap:
  "array_sort default_compare [a, b] = array_sort default_compare [b, a]"
  using string_less_asym [of a b] string_less_total [of a b]
  by (auto simp: array_sort_pair default_compare_def)

lemma derive_swap:
  "deriveFundingAddress p2ms p2wsh own_key peer_key =
     deriveFundingAddress p2ms p2wsh peer_key own_key"
  by (simp add: deriveFundingAddress_def sort_keys_swap [of own_key peer_key])

lemma derive_canonical:
  "deriveFundingAddress p2ms p2wsh (bufferAsHex k1) (bufferAsHex k2) =
     canonical_multisig p2ms p2wsh k1 k2"
proof -
  have "array_sort default_compare [bufferAsHex k1, bufferAsHex k2] =
      (if bytes_less k2 k1 then [bufferAsHex k2, bufferAsHex k1]
       else [bufferAsHex k1, bufferAsHex k2])"
    by (simp add: array_sort_pair default_compare_def string_less_bufferAsHex)
  then have "map hexAsBuffer (array_sort default_compare [bufferAsHex k1, bufferAsHex k2]) =
      (if bytes_less k2 k1 then [k2, k1] else [k1, k2])"
    by (simp add: hexAsBuffer_bufferAsHex)
  moreover have "length [bufferAsHex k1, bufferAsHex k2] = 2" by simp
  ultimately show ?thesis
    unfolding deriveFundingAddress_def canonical_multisig_def Let_def
    by (simp add: numeral_2_eq_2)
qed

text \<open>
  C5: the derived script and hash are the same whichever of the two keys is the own one
  and whichever the peer's; on the hex encodings of two raw keys the derivation is the
  canonical one, the raw keys sorted byte-wise ascending before the 2-of-2 script is
  built, which is symmetric in the keys too.
\<close>

theorem multisig_symmetric_and_bytewise:
  "deriveFundingAddress p2ms p2wsh own_key peer_key =
     deriveFundingAddress p2ms p2wsh peer_key own_key \<and>
   deriveFundingAddress p2ms p2wsh (bufferAsHex key1) (bufferAsHex key2) =
     canonical_multisig p2ms p2wsh key1 key2 \<and>
   canonical_multisig p2ms p2wsh key1 key2 = canonical_multisig p2ms p2wsh key2 key1"
proof -
  have "canonical_multisig p2ms p2wsh key1 key2 = canonical_multisig p2ms p2wsh key2 key1"
    using derive_swap [of p2ms p2wsh "bufferAsHex key1" "bufferAsHex key2"]
    by (simp add: derive_canonical)
  then show ?thesis
    using derive_swap [of p2ms p2wsh own_key peer_key] derive_canonical [of p2ms p2wsh key1 key2]
    by blast
qed

theorem multisig_symmetric_and_bytewise_witness:
  "deriveFundingAddress standin_p2ms standin_p2wsh example_own_key example_peer_key =
     deriveFundingAddress standin_p2ms standin_p2wsh example_peer_key example_own_key \<and>
   deriveFundingAddress standin_p2ms standin_p2wsh (bufferAsHex [3, 177]) (bufferAsHex [2, 193]) =
     canonical_multisig standin_p2ms standin_p2wsh [3, 177] [2, 193] \<and>
   canonical_multisig standin_p2ms standin_p2wsh [3, 177] [2, 193] =
     canonical_multisig standin_p2ms standin_p2wsh [2, 193] [3, 177]"
  by (rule multisig_symmetric_and_bytewise)

subsection \<open>The digest of the records\<close>

lemma mset_insert_by: "mset (insert_by compare x ys) = add_mset x (mset ys)"
  by (induction ys) simp_all

lemma mset_foldl_insert_by:
  "mset (foldl (\<lambda>sorted x. insert_by compare x sorted) acc xs) = mset acc + mset xs"
  by (induction xs arbitrary: acc) (simp_all add: mset_insert_by)

lemma mset_array_sort: "mset (array_sort compare xs) = mset xs"
  by (simp add: array_sort_def mset_foldl_insert_by)

lemma set_insert_by: "set (insert_by compare x ys) = insert x (set ys)"
  using mset_insert_by [of compare x ys] by (metis set_mset_add_mset_insert set_mset_mset)

lemma sorted_insert_by:
  assumes "\<And>a b. (compare a b < 0) = (key a < key b)"
  shows "sorted (map key ys) \<Longrightarrow> sorted (map (key :: 'a \<Rightarrow> int) (insert_by compare x ys))"
  by (induction ys) (auto simp: assms set_insert_by)

lemma sorted_foldl_insert_by:
  assumes "\<And>a b. (compare a b < 0) = (key a < key b)"
  shows "sorted (map key acc) \<Longrightarrow>
    sorted (map (key :: 'a \<Rightarrow> int) (foldl (\<lambda>sorted x. insert_by compare x sorted) acc xs))"
  by (induction xs arbitrary: acc) (simp_all add: sorted_insert_by [OF assms])

lemma sorted_array_sort:
  assumes "\<And>a b. (compare a b < 0) = (key a < key b)"
  shows "sorted (map (key :: 'a \<Rightarrow> int) (array_sort compare xs))"
  by (simp add: array_sort_def sorted_foldl_insert_by [OF assms])

lemma type_compare_key: "(type_compare a b < 0) = (numeric_type a < numeric_type b)"
  by (simp add: type_compare_def numeric_type_def)

lemma sorted_by_type: "sorted (map numeric_type (array_sort type_compare ms))"
  by (rule sorted_array_sort) (rule type_compare_key)

lemma array_sort_permutation:
  assumes d: "distinct (map numeric_type ms)" and p: "mset ms' = mset ms"
  shows "array_sort type_compare ms' = array_sort type_compare ms"
proof -
  let ?a = "array_sort type_compare ms'" and ?b = "array_sort type_compare ms"
  have m: "mset ?a = mset ?b" using p by (simp add: mset_array_sort)
  have mb: "mset (map numeric_type ?b) = mset (map numeric_type ms)"
    by (simp add: mset_array_sort)
  have ma: "mset (map numeric_type ?a) = mset (map numeric_type ms)"
    using p by (simp add: mset_array_sort)
  have db: "distinct (map numeric_type ?b)"
    using d mb by (metis mset_eq_imp_distinct_iff)
  have da: "distinct (map numeric_type ?a)"
    using d ma by (metis mset_eq_imp_distinct_iff)
  have s: "set ?a = set ?b" using m by (metis set_mset_mset)
  have "inj_on numeric_type (set ?b)" using db by (simp add: distinct_map)
  then have inj: "inj_on numeric_type (set ?a \<union> set ?b)" using s by simp
  show ?thesis
    by (rule map_sorted_distinct_set_unique [OF inj sorted_by_type da sorted_by_type db s])
qed

lemma js_Number_small: "n < 2 ^ 53 \<Longrightarrow> js_Number n = int n"
  by (simp add: js_Number_def)

lemma length_big_endian: "length (big_endian k n) = k"
  by (induction k arbitrary: n) simp_all

lemma be_value_snoc: "be_value (bytes @ [b]) = 256 * be_value bytes + unat b"
  by (simp add: be_value_def)

lemma unat_byte: "unat (of_nat m :: byte) = m mod 256"
  by (simp add: unat_of_nat)

lemma be_value_big_endian: "be_value (big_endian k n) = n mod 256 ^ k"
proof (induction k arbitrary: n)
  case 0
  show ?case by (simp add: be_value_def)
next
  case (Suc k)
  have "be_value (big_endian (Suc k) n) = 256 * (n div 256 mod 256 ^ k) + n mod 256"
    by (simp add: be_value_snoc Suc unat_byte)
  also have "\<dots> = n mod (256 * 256 ^ k)"
    by (simp only: mod_mult2_eq)
  finally show ?case by simp
qed

lemma byte_of_mod: "(of_nat (m mod 256) :: byte) = of_nat m"
  by (simp add: word_eq_iff_unsigned [where ?'a = nat] unat_byte)

lemma writeBigUInt64BE_big_endian:
  "writeBigUInt64BE n = (if n < 2 ^ 64 then Some (big_endian 8 n) else None)"
proof -
  have u: "[0..<8] = [0, 1, 2, 3, 4, 5, 6, 7 :: nat]"
    by (simp add: upt_rec)
  have e: "(8 :: nat) = Suc (Suc (Suc (Suc (Suc (Suc (Suc (Suc 0)))))))"
    by simp
  have "map (\<lambda>i. of_nat (n div 256 ^ (7 - i)) :: byte) [0..<8] = big_endian 8 n"
    unfolding u e by (simp add: byte_of_mod div_mult2_eq [symmetric])
  then show ?thesis by (simp add: writeBigUInt64BE_def)
qed

lemma those_encode_message:
  "\<forall>m\<in>set ms. tlv_type m < 2 ^ 64 \<Longrightarrow>
   those (map encode_message ms) =
     Some (map (\<lambda>m. big_endian 8 (tlv_type m) @ hexAsBuffer (tlv_value m)) ms)"
  by (induction ms) (simp_all add: encode_message_def writeBigUInt64BE_big_endian)

lemma those_encode_message_None:
  "\<exists>m\<in>set ms. \<not> tlv_type m < 2 ^ 64 \<Longrightarrow> those (map encode_message ms) = None"
  by (induction ms)
    (auto simp: encode_message_def writeBigUInt64BE_big_endian split: option.splits)

lemma set_array_sort: "set (array_sort compare xs) = set xs"
  using arg_cong [OF mset_array_sort [of compare xs], of set_mset] by simp

lemma messages_digest_encoding:
  "messages_digest sha256 messages =
     (if \<forall>m\<in>set messages. tlv_type m < 2 ^ 64
      then Some (sha256 (concat (map (\<lambda>m. big_endian 8 (tlv_type m) @ hexAsBuffer (tlv_value m))
                           (array_sort type_compare messages))))
      else None)"
proof (cases "\<forall>m\<in>set messages. tlv_type m < 2 ^ 64")
  case True
  then have "\<forall>m\<in>set (array_sort type_compare messages). tlv_type m < 2 ^ 64"
    by (simp only: set_array_sort)
  from those_encode_message [OF this] True show ?thesis
    by (simp add: messages_digest_def)
next
  case False
  then have "\<exists>m\<in>set (array_sort type_compare messages). \<not> tlv_type m < 2 ^ 64"
    by (simp only: set_array_sort) blast
  from those_encode_message_None [OF this] False show ?thesis
    by (simp add: messages_digest_def)
qed

lemma sorted_by_small_type:
  assumes "\<forall>m\<in>set messages. tlv_type m < 2 ^ 53"
  shows "sorted (map tlv_type (array_sort type_compare messages))"
proof -
  let ?s = "array_sort type_compare messages"
  have "map numeric_type ?s = map (\<lambda>m. int (tlv_type m)) ?s"
    using assms by (intro map_cong refl) (simp add: set_array_sort numeric_type_def js_Number_small)
  with sorted_by_type [of messages] have "sorted (map (\<lambda>m. int (tlv_type m)) ?s)"
    by simp
  then show ?thesis
    by (simp add: sorted_map)
qed


lemma example_sorted:
  "array_sort type_compare example_messages =
     [\<lparr>tlv_type = 80502, tlv_value = ''1e8480''\<rparr>, \<lparr>tlv_type = 80504, tlv_value = ''0a''\<rparr>,
      \<lparr>tlv_type = 80505, tlv_value = ''02c1''\<rparr>, \<lparr>tlv_type = 80507, tlv_value = ''00ff''\<rparr>,
      \<lparr>tlv_type = 80508, tlv_value = ''01''\<rparr>,
      \<lparr>tlv_type = 5482373484, tlv_value = ''aa01''\<rparr>]"
  by (simp add: array_sort_def type_compare_def js_Number_def example_messages_def
      request_messages_def example_types_def keySendPreimageType_def numAsHex.simps
      paddedHexNumber_def hexDigit_def char_of_def bit_iff_odd)

lemma example_digest:
  "messages_digest bufferAsHex example_messages =
     Some ''0000000000013a761e84800000000000013a780a0000000000013a7902c10000000000013a7b00ff0000000000013a7c010000000146c6616caa01''"
  unfolding messages_digest_def example_sorted
  by (simp add: encode_message_def writeBigUInt64BE_def upt_rec unat_byte
      hexDigit_def hexDigitValue_def char_of_def bit_iff_odd byteAsHex_def bufferAsHex_def)

lemma example_distinct: "distinct (map numeric_type example_messages)"
  by (simp add: example_messages_def request_messages_def example_types_def numeric_type_def
      js_Number_def keySendPreimageType_def)

text \<open>
  C4: for records of distinct numeric types, every permutation of the record list gives
  the digest step the same digest. The records are sorted ascending by numeric type (by
  the type itself below \<open>2^53\<close>), and the digest is the hash of the concatenation, in
  that order, of the type of each record in eight bytes, most significant first, followed
  by the bytes its value is the hex of; a type of \<open>2^64\<close> or more raises.
\<close>

theorem digest_order_independent:
  assumes "distinct (map numeric_type messages)" and "mset permuted = mset messages"
  shows "messages_digest sha256 permuted = messages_digest sha256 messages \<and>
         sorted (map numeric_type (array_sort type_compare messages)) \<and>
         mset (array_sort type_compare messages) = mset messages \<and>
         ((\<forall>m\<in>set messages. tlv_type m < 2 ^ 53) \<longrightarrow>
            sorted (map tlv_type (array_sort type_compare messages))) \<and>
         messages_digest sha256 messages =
           (if \<forall>m\<in>set messages. tlv_type m < 2 ^ 64
            then Some (sha256 (concat
                   (map (\<lambda>m. big_endian 8 (tlv_type m) @ hexAsBuffer (tlv_value m))
                      (array_sort type_compare messages))))
            else None) \<and>
         (\<forall>n. length (big_endian 8 n) = 8 \<and> be_value (big_endian 8 n) = n mod 2 ^ 64) \<and>
         (\<forall>n. writeBigUInt64BE n = (if n < 2 ^ 64 then Some (big_endian 8 n) else None)) \<and>
         (\<forall>bytes. hexAsBuffer (bufferAsHex bytes) = bytes)"
proof -
  have 1: "messages_digest sha256 permuted = messages_digest sha256 messages"
    by (simp add: messages_digest_def array_sort_permutation [OF assms])
  have 2: "(\<forall>m\<in>set messages. tlv_type m < 2 ^ 53) \<longrightarrow>
      sorted (map tlv_type (array_sort type_compare messages))"
    using sorted_by_small_type by blast
  have 3: "\<forall>n. length (big_endian 8 n) = 8 \<and> be_value (big_endian 8 n) = n mod 2 ^ 64"
    by (simp add: length_big_endian be_value_big_endian)
  note 4 = messages_digest_encoding [of sha256 messages]
  have 5: "\<forall>n. writeBigUInt64BE n = (if n < 2 ^ 64 then Some (big_endian 8 n) else None)"
    using writeBigUInt64BE_big_endian by blast
  have 6: "\<forall>bytes. hexAsBuffer (bufferAsHex bytes) = bytes"
    by (simp add: hexAsBuffer_bufferAsHex)
  from 1 sorted_by_type [of messages] mset_array_sort [of type_compare messages] 2 4 3 5 6
  show ?thesis by (intro conjI)
qed

theorem digest_order_independent_witness:
  "distinct (map numeric_type example_messages) \<and>
   mset (rev example_messages) = mset example_messages \<and>
   messages_digest bufferAsHex (rev example_messages) =
     messages_digest bufferAsHex example_messages \<and>
   messages_digest bufferAsHex (rev example_messages) =
     Some ''0000000000013a761e84800000000000013a780a0000000000013a7902c10000000000013a7b00ff0000000000013a7c010000000146c6616caa01''"
  using digest_order_independent [OF example_distinct, of "rev example_messages" bufferAsHex]
    example_distinct example_digest
  by simp

text \<open>The digest \<^verbatim>\<open>messagesToPush\<close> returns is the digest of every permutation of its records.\<close>

lemma messagesToPush_digest:
  assumes "distinct (map numeric_type
             (request_messages types secret capacity rate multisig_key transit_id transit_vout))"
    and "mset permuted =
           mset (request_messages types secret capacity rate multisig_key transit_id transit_vout)"
  shows "map_option push_digest
           (messagesToPush sha256 types secret capacity rate multisig_key transit_id transit_vout) =
         messages_digest sha256 permuted"
proof -
  have "messages_digest sha256 permuted =
      messages_digest sha256
        (request_messages types secret capacity rate multisig_key transit_id transit_vout)"
    by (simp add: messages_digest_def array_sort_permutation [OF assms])
  then show ?thesis
    by (simp add: messagesToPush_def Let_def split: option.splits)
qed

subsection \<open>The transit funding\<close>

lemma findIndex_Some:
  "findIndex p xs = Some i \<Longrightarrow> i < length xs \<and> p (xs ! i)"
proof (induction xs arbitrary: i)
  case Nil
  then show ?case by simp
next
  case (Cons x xs)
  show ?case
  proof (cases "p x")
    case True
    with Cons.prems show ?thesis by simp
  next
    case False
    with Cons.prems obtain j where j: "findIndex p xs = Some j" and i: "i = Suc j"
      by (auto split: option.splits)
    from Cons.IH [OF j] i show ?thesis by simp
  qed
qed














subsection \<open>The joint funding transaction\<close>

lemma bufferAsHex_inj: "bufferAsHex a = bufferAsHex b \<Longrightarrow> a = b"
  by (metis hexAsBuffer_bufferAsHex)

lemma localeCompare_sign:
  "(localeCompare a b < 0) = string_less a b \<and> (localeCompare a b = 0) = (a = b) \<and>
   (0 < localeCompare a b) = string_less b a"
  using string_less_asym [of a b] string_less_total [of a b] string_less_irrefl [of a]
  by (auto simp: localeCompare_def)

lemma input_compare_zero:
  "input_compare a b = 0 \<Longrightarrow> input_hash a = input_hash b \<and> input_index a = input_index b"
  using localeCompare_sign [of "bufferAsHex (input_hash a)" "bufferAsHex (input_hash b)"]
  by (auto simp: input_compare_def Let_def dest: bufferAsHex_inj split: if_splits)

lemma input_compare_asym: "input_compare a b < 0 \<Longrightarrow> 0 < input_compare b a"
  using localeCompare_sign [of "bufferAsHex (input_hash a)" "bufferAsHex (input_hash b)"]
    localeCompare_sign [of "bufferAsHex (input_hash b)" "bufferAsHex (input_hash a)"]
  by (auto simp: input_compare_def Let_def split: if_splits)

lemma input_compare_pos: "0 < input_compare a b \<Longrightarrow> input_compare b a < 0"
  using localeCompare_sign [of "bufferAsHex (input_hash a)" "bufferAsHex (input_hash b)"]
    localeCompare_sign [of "bufferAsHex (input_hash b)" "bufferAsHex (input_hash a)"]
  by (auto simp: input_compare_def Let_def split: if_splits)

lemma array_sort_pair_commute:
  assumes asym: "\<And>x y. compare x y < 0 \<Longrightarrow> 0 < compare y x"
    and pos: "\<And>x y. 0 < compare x y \<Longrightarrow> compare y x < 0"
    and zero: "compare a b = 0 \<Longrightarrow> a = b"
  shows "array_sort compare [a, b] = array_sort compare [b, a]"
proof -
  consider "compare a b < 0" | "compare a b = 0" | "0 < compare a b" by linarith
  then show ?thesis
  proof cases
    case 1
    with asym [of a b] show ?thesis by (simp add: array_sort_pair)
  next
    case 2
    with zero show ?thesis by simp
  next
    case 3
    with pos [of a b] show ?thesis by (simp add: array_sort_pair)
  qed
qed

lemma sorted_inputs_commute: "sorted_inputs [first, second] = sorted_inputs [second, first]"
proof -
  obtain i1 v1 where f: "first = (i1, v1)" by (cases first)
  obtain i2 v2 where s: "second = (i2, v2)" by (cases second)
  let ?a = "\<lparr>input_hash = idAsHash i1, input_index = v1, input_sequence = 0,
             input_witness = []\<rparr>"
  let ?b = "\<lparr>input_hash = idAsHash i2, input_index = v2, input_sequence = 0,
             input_witness = []\<rparr>"
  have eq: "input_compare ?a ?b = 0 \<Longrightarrow> ?a = ?b"
    using input_compare_zero [of ?a ?b] by simp
  have "array_sort input_compare [?a, ?b] = array_sort input_compare [?b, ?a]"
    by (rule array_sort_pair_commute [OF input_compare_asym input_compare_pos eq])
  then show ?thesis by (simp add: sorted_inputs_def f s)
qed

text \<open>
  \<^verbatim>\<open>halfSign\<close> returns a transaction when the two outpoints and the capacity pass the
  checks of the library, and throws when the outpoint of the peer fails them; the inputs of
  the transaction are the two outpoints, in internal byte order, and its one output pays the
  capacity to the multisig script.
\<close>

lemma forEach_addInput_Some:
  "\<forall>n\<in>set inputs. is_Hash256bit (input_hash n) \<and> is_UInt32 (input_index n) \<and>
                     is_UInt32 (input_sequence n) \<Longrightarrow>
   forEach_addInput tx inputs =
     Some (tx\<lparr>ins := ins tx @ map (\<lambda>n. \<lparr>input_hash = input_hash n, input_index = input_index n,
                           input_sequence = input_sequence n, input_witness = []\<rparr>) inputs\<rparr>)"
  by (induction inputs arbitrary: tx) (simp_all add: addInput_def)

lemma forEach_addInput_None:
  "\<exists>n\<in>set inputs. \<not> (is_Hash256bit (input_hash n) \<and> is_UInt32 (input_index n) \<and>
                     is_UInt32 (input_sequence n)) \<Longrightarrow>
   forEach_addInput tx inputs = None"
  by (induction inputs arbitrary: tx) (auto simp: addInput_def split: option.splits)

lemma findIndex_member: "x \<in> set xs \<Longrightarrow> p x \<Longrightarrow> \<exists>i. findIndex p xs = Some i"
  by (induction xs) (auto split: option.splits)

lemma mset_sorted_inputs:
  "mset (map (\<lambda>n. (input_hash n, input_index n)) (sorted_inputs utxos)) =
     mset (map (\<lambda>(transaction_id, transaction_vout). (idAsHash transaction_id, transaction_vout))
             utxos)"
proof -
  let ?f = "\<lambda>(transaction_id, transaction_vout).
               \<lparr>input_hash = idAsHash transaction_id, input_index = transaction_vout,
                input_sequence = 0, input_witness = []\<rparr>"
  have "mset (map (\<lambda>n. (input_hash n, input_index n)) (sorted_inputs utxos)) =
      image_mset (\<lambda>n. (input_hash n, input_index n)) (mset (array_sort input_compare (map ?f utxos)))"
    by (simp add: sorted_inputs_def)
  also have "\<dots> = image_mset (\<lambda>n. (input_hash n, input_index n)) (mset (map ?f utxos))"
    by (simp only: mset_array_sort)
  also have "\<dots> = mset (map (\<lambda>(transaction_id, transaction_vout).
      (idAsHash transaction_id, transaction_vout)) utxos)"
    by (simp add: image_mset.compositionality comp_def case_prod_unfold)
  finally show ?thesis .
qed

lemma set_sorted_inputs:
  "set (sorted_inputs utxos) =
     (\<lambda>(transaction_id, transaction_vout).
         \<lparr>input_hash = idAsHash transaction_id, input_index = transaction_vout,
          input_sequence = 0, input_witness = []\<rparr>) ` set utxos"
proof -
  have "mset (sorted_inputs utxos) =
      mset (map (\<lambda>(transaction_id, transaction_vout).
         \<lparr>input_hash = idAsHash transaction_id, input_index = transaction_vout,
          input_sequence = 0, input_witness = []\<rparr>) utxos)"
    by (simp only: sorted_inputs_def mset_array_sort)
  from arg_cong [OF this, of set_mset] show ?thesis by simp
qed

lemma halfSign_throws:
  assumes "\<not> is_Hash256bit (idAsHash (accept_transaction_id acceptance)) \<or>
           \<not> is_UInt32 (accept_transaction_vout acceptance)"
  shows "halfSign capacity funding address acceptance = None"
proof -
  let ?utxos = "[(funding_transaction_id funding, funding_transaction_vout funding),
                 (accept_transaction_id acceptance, accept_transaction_vout acceptance)]"
  let ?n = "\<lparr>input_hash = idAsHash (accept_transaction_id acceptance),
             input_index = accept_transaction_vout acceptance,
             input_sequence = 0, input_witness = []\<rparr>"
  have "?n \<in> set (sorted_inputs ?utxos)"
    by (simp add: set_sorted_inputs)
  moreover have "\<not> (is_Hash256bit (input_hash ?n) \<and> is_UInt32 (input_index ?n) \<and>
      is_UInt32 (input_sequence ?n))"
    using assms by auto
  ultimately have "forEach_addInput new_Transaction (sorted_inputs ?utxos) = None"
    by (intro forEach_addInput_None bexI [of _ ?n])
  then show ?thesis
    by (simp add: halfSign_def Let_def)
qed

lemma halfSign_inputs:
  assumes own: "is_Hash256bit (idAsHash (funding_transaction_id funding))"
      "is_UInt32 (funding_transaction_vout funding)"
    and peer: "is_Hash256bit (idAsHash (accept_transaction_id acceptance))"
      "is_UInt32 (accept_transaction_vout acceptance)"
    and capacity: "is_Satoshi capacity"
  shows "\<exists>tx. halfSign capacity funding address acceptance = Some tx \<and>
        mset (map (\<lambda>n. (input_hash n, input_index n)) (ins tx)) =
          {#(idAsHash (funding_transaction_id funding), funding_transaction_vout funding),
            (idAsHash (accept_transaction_id acceptance), accept_transaction_vout acceptance)#} \<and>
        outs tx = [\<lparr>output_script = hexAsBuffer (address_script address),
                    output_value = capacity\<rparr>]"
proof -
  let ?utxos = "[(funding_transaction_id funding, funding_transaction_vout funding),
                 (accept_transaction_id acceptance, accept_transaction_vout acceptance)]"
  let ?tx = "new_Transaction\<lparr>ins :=
               map (\<lambda>n. \<lparr>input_hash = input_hash n, input_index = input_index n,
                           input_sequence = input_sequence n, input_witness = []\<rparr>)
                 (sorted_inputs ?utxos)\<rparr>"
  let ?p = "\<lambda>input. input_index input = accept_transaction_vout acceptance \<and>
              input_hash input = idAsHash (accept_transaction_id acceptance)"
  have "\<forall>n\<in>set (sorted_inputs ?utxos). is_Hash256bit (input_hash n) \<and>
      is_UInt32 (input_index n) \<and> is_UInt32 (input_sequence n)"
    using own peer by (simp add: set_sorted_inputs is_UInt32_def)
  from forEach_addInput_Some [OF this, of new_Transaction]
  have fe: "forEach_addInput new_Transaction (sorted_inputs ?utxos) = Some ?tx"
    by (simp add: new_Transaction_def)
  have i: "ins ?tx = map (\<lambda>n. \<lparr>input_hash = input_hash n, input_index = input_index n,
                           input_sequence = input_sequence n, input_witness = []\<rparr>)
                       (sorted_inputs ?utxos)"
    by simp
  have o: "outs ?tx = []"
    by (simp add: new_Transaction_def)
  have m: "mset (map (\<lambda>n. (input_hash n, input_index n)) (ins ?tx)) =
      {#(idAsHash (funding_transaction_id funding), funding_transaction_vout funding),
        (idAsHash (accept_transaction_id acceptance), accept_transaction_vout acceptance)#}"
    using mset_sorted_inputs [of ?utxos] by (simp add: i comp_def)
  from arg_cong [OF m, of set_mset]
  have "(idAsHash (accept_transaction_id acceptance), accept_transaction_vout acceptance)
      \<in> set (map (\<lambda>n. (input_hash n, input_index n)) (ins ?tx))"
    by simp
  then have "(idAsHash (accept_transaction_id acceptance), accept_transaction_vout acceptance)
      \<in> (\<lambda>n. (input_hash n, input_index n)) ` set (ins ?tx)"
    by (simp only: set_map)
  then obtain x where x: "x \<in> set (ins ?tx)" and
    gx: "(idAsHash (accept_transaction_id acceptance), accept_transaction_vout acceptance) =
           (input_hash x, input_index x)"
    by (rule imageE)
  from gx have px: "?p x" by simp
  from findIndex_member [of x "ins ?tx" ?p, OF x px] obtain v where
    v: "findIndex ?p (ins ?tx) = Some v" by blast
  from findIndex_Some [OF v] have vl: "v < length (ins ?tx)" by simp
  let ?w = "map hexAsBuffer [accept_funding_signature acceptance,
                             accept_transit_public_key acceptance]"
  let ?half = "?tx\<lparr>ins := (ins ?tx)[v := (ins ?tx ! v)\<lparr>input_witness := ?w\<rparr>]\<rparr>"
  let ?res = "?half\<lparr>outs := outs ?half @ [\<lparr>output_script = hexAsBuffer (address_script address),
                    output_value = capacity\<rparr>]\<rparr>"
  have sw: "setWitness ?tx (Some v) ?w = Some ?half"
    using vl by (simp add: setWitness_def)
  have ao: "addOutput ?half (hexAsBuffer (address_script address)) capacity = Some ?res"
    using capacity by (simp add: addOutput_def)
  have h: "halfSign capacity funding address acceptance = Some ?res"
    unfolding halfSign_def Let_def fe option.case v sw ao by (rule refl)
  have k: "map (\<lambda>n. (input_hash n, input_index n))
        ((ins ?tx)[v := (ins ?tx ! v)\<lparr>input_witness := ?w\<rparr>]) =
      map (\<lambda>n. (input_hash n, input_index n)) (ins ?tx)"
    using vl by (simp add: map_update list_update_same_conv)
  have ri: "ins ?res = (ins ?tx)[v := (ins ?tx ! v)\<lparr>input_witness := ?w\<rparr>]"
    by simp
  have ro: "outs ?res = [\<lparr>output_script = hexAsBuffer (address_script address),
                    output_value = capacity\<rparr>]"
    using o by simp
  have "map (\<lambda>n. (input_hash n, input_index n)) (ins ?res) =
      map (\<lambda>n. (input_hash n, input_index n)) (ins ?tx)"
    unfolding ri by (rule k)
  then have rm: "mset (map (\<lambda>n. (input_hash n, input_index n)) (ins ?res)) =
      {#(idAsHash (funding_transaction_id funding), funding_transaction_vout funding),
        (idAsHash (accept_transaction_id acceptance), accept_transaction_vout acceptance)#}"
    using m by (simp only:)
  from h rm ro show ?thesis by blast
qed

lemmas hex_eval = hexDigit_def hexDigitValue_def char_of_def bit_iff_odd byteAsHex_def
  bufferAsHex_def idAsHash_def

text \<open>
  C2: the inputs are sorted by the hex of \<^verbatim>\<open>idAsHash(transaction_id)\<close>, the id with its
  bytes reversed, not by the hex of the id. For the two outpoints below the id of the own
  transit output is the smaller hex string, and the peer's input comes first.
\<close>

theorem inputs_sorted_by_reversed_id:
  "map_option outpoints (halfSign (Num 2000000) example_funding example_address example_acceptance) =
     Some [(example_peer_txid, 0), (example_own_txid, 1)] \<and>
   string_less example_own_txid example_peer_txid"
  by (simp add: halfSign_def sorted_inputs_def array_sort_def input_compare_def localeCompare_def
      example_funding_def example_acceptance_def example_address_def example_own_txid_def example_peer_txid_def
      new_Transaction_def addInput_def setWitness_def addOutput_def outpoints_def hex_eval
      is_Hash256bit_def is_UInt32_def)

subsection \<open>The acceptance wait\<close>

lemma perform_fields:
  "effects (perform s e) = effects s @ [e] \<and>
   wait_service (perform s e) = wait_service s \<and>
   invoice_listeners (perform s e) = (invoice_listeners s \<and> e \<noteq> RemoveAllListeners) \<and>
   service_listening (perform s e) =
     (service_listening s \<and> \<not> (e = StopService \<and> wait_service s = PeerRequestsService))"
  by (cases e) (simp_all split: p2p_service.splits)

lemma foldl_perform_fields:
  "effects (foldl perform s es) = effects s @ es \<and>
   wait_service (foldl perform s es) = wait_service s \<and>
   invoice_listeners (foldl perform s es) =
     (invoice_listeners s \<and> RemoveAllListeners \<notin> set es) \<and>
   service_listening (foldl perform s es) =
     (service_listening s \<and> \<not> (StopService \<in> set es \<and> wait_service s = PeerRequestsService))"
proof (induction es arbitrary: s)
  case Nil
  show ?case by simp
next
  case (Cons e es)
  show ?case
    using Cons.IH [of "perform s e"] perform_fields [of s e] by auto
qed

lemma callbacks_append: "callbacks (xs @ ys) = callbacks xs @ callbacks ys"
  by (induction xs rule: callbacks.induct) simp_all

lemma deliver_eq:
  "deliver c s e = (if listening s e then foldl perform s (handler_effects c e) else s)"
  by (cases e) (simp_all add: handler_effects_def listening_def)

lemma deliver_quiet:
  "\<not> invoice_listeners s \<Longrightarrow> \<not> service_listening s \<Longrightarrow> deliver c s e = s"
  by (cases e) simp_all

lemma run_quiet:
  "\<not> invoice_listeners s \<Longrightarrow> \<not> service_listening s \<Longrightarrow> wait_run c s events = s"
  unfolding wait_run_def by (induction events) (simp_all add: deliver_quiet)

lemma run_ignored:
  "\<forall>e\<in>set ignored. handler_effects c e = [] \<Longrightarrow> wait_run c s ignored = s"
  unfolding wait_run_def by (induction ignored) (simp_all add: deliver_eq)

lemma wait_run_append:
  "wait_run c s (xs @ ys) = wait_run c (wait_run c s xs) ys"
  by (simp add: wait_run_def)

text \<open>
  The handler of an event that carries an acceptance removes the listeners and stops the
  service, calls the callback with the acceptance and, when that call throws, calls it
  again with the error.
\<close>

lemma accepted_effects:
  assumes "accepted_details c e = Some a"
  shows "\<exists>before after. handler_effects c e = before @ Callback (Inr a) # after \<and>
           callbacks before = [] \<and>
           RemoveAllListeners \<in> set before \<and> StopService \<in> set before \<and>
           callbacks after =
             (case callback_throws c a of None \<Rightarrow> [] | Some message \<Rightarrow> [Inl (503, message)])"
proof (cases e)
  case (PeerRequest req)
  with assms obtain idRecord where
    f: "find (\<lambda>n. tlv_type n = 0) (request_records req) = Some idRecord" and
    v: "tlv_value idRecord = invoice_id (accept_request c)" and
    p: "request_from req = partner_public_key c" and
    b: "balancedOpenAcceptDetails c (request_records req) = Inr a"
    by (auto split: if_splits option.splits sum.splits)
  let ?after = "case callback_throws c a of None \<Rightarrow> []
    | Some message \<Rightarrow> [ReplyFailure (503, message), Callback (Inl (503, message))]"
  let ?before = "[RemoveAllListeners, StopService, CancelHodlInvoice (tlv_value idRecord),
         LogInfo ''received_balanced_channel_acceptance'', ReplySuccess]"
  have h: "handler_effects c e = ?before @ Callback (Inr a) # ?after"
    using f v p b PeerRequest by (simp add: handler_effects_def on_peer_request_def)
  have t: "callbacks ?after =
      (case callback_throws c a of None \<Rightarrow> [] | Some message \<Rightarrow> [Inl (503, message)])"
    by (simp split: option.splits)
  have "handler_effects c e = ?before @ Callback (Inr a) # ?after \<and>
           callbacks ?before = [] \<and>
           RemoveAllListeners \<in> set ?before \<and> StopService \<in> set ?before \<and>
           callbacks ?after =
             (case callback_throws c a of None \<Rightarrow> [] | Some message \<Rightarrow> [Inl (503, message)])"
    using h t by simp
  then show ?thesis by blast
next
  case InvoiceError
  with assms show ?thesis by simp
next
  case (InvoiceUpdated updated)
  with assms obtain payment where
    i: "is_confirmed updated" and
    f: "find (\<lambda>payment. find (\<lambda>n. tlv_type n = multiSigType c) (payment_messages payment)
                                 \<noteq> None) (payments updated) = Some payment" and
    b: "balancedOpenAcceptDetails c (payment_messages payment) = Inr a"
    by (auto split: if_splits option.splits sum.splits)
  let ?after = "case callback_throws c a of None \<Rightarrow> []
    | Some message \<Rightarrow> [Callback (Inl (503, message))]"
  let ?before = "[LogInfo ''received_peer_balanced_channel_acceptance'', RemoveAllListeners,
         StopService]"
  have h: "handler_effects c e = ?before @ Callback (Inr a) # ?after"
    using i f b InvoiceUpdated by (simp add: handler_effects_def on_invoice_updated_def)
  have t: "callbacks ?after =
      (case callback_throws c a of None \<Rightarrow> [] | Some message \<Rightarrow> [Inl (503, message)])"
    by (simp split: option.splits)
  have "handler_effects c e = ?before @ Callback (Inr a) # ?after \<and>
           callbacks ?before = [] \<and>
           RemoveAllListeners \<in> set ?before \<and> StopService \<in> set ?before \<and>
           callbacks ?after =
             (case callback_throws c a of None \<Rightarrow> [] | Some message \<Rightarrow> [Inl (503, message)])"
    using h t by simp
  then show ?thesis by blast
qed

text \<open>
  After any events that no handler resolves on, the first event that carries an
  acceptance decides the calls of the callback, whatever arrives later: one call with the
  acceptance when that call returns, and a second call with the error when it throws.
  The listeners are removed and the service is stopped, and no later event is handled.
\<close>

lemma first_acceptance_decides:
  assumes "\<forall>e\<in>set ignored. handler_effects c e = []"
    and "accepted_details c first = Some a"
  shows "callbacks (effects (wait_run c (waitForAccept PeerRequestsService)
                      (ignored @ first # later))) =
           Inr a # (case callback_throws c a of None \<Rightarrow> []
                    | Some message \<Rightarrow> [Inl (503, message)]) \<and>
         wait_run c (waitForAccept PeerRequestsService) (ignored @ first # later) =
           deliver c (waitForAccept PeerRequestsService) first \<and>
         \<not> invoice_listeners (deliver c (waitForAccept PeerRequestsService) first) \<and>
         \<not> service_listening (deliver c (waitForAccept PeerRequestsService) first)"
proof -
  let ?s0 = "waitForAccept PeerRequestsService"
  let ?s1 = "deliver c ?s0 first"
  from accepted_effects [OF assms(2)] obtain before after where
    h: "handler_effects c first = before @ Callback (Inr a) # after" and
    cb: "callbacks before = []" and
    rm: "RemoveAllListeners \<in> set before" and st: "StopService \<in> set before" and
    ca: "callbacks after =
      (case callback_throws c a of None \<Rightarrow> [] | Some message \<Rightarrow> [Inl (503, message)])"
    by blast
  have l: "listening ?s0 first"
    by (simp add: listening_def waitForAccept_def)
  have s1: "?s1 = foldl perform ?s0 (handler_effects c first)"
    using l by (simp add: deliver_eq)
  have e1: "effects ?s1 = effects ?s0 @ before @ Callback (Inr a) # after"
    using h by (simp add: s1 foldl_perform_fields)
  have ws: "wait_service ?s0 = PeerRequestsService"
    by (simp add: waitForAccept_def)
  have q1: "\<not> invoice_listeners ?s1"
    unfolding s1 using h rm by (simp add: foldl_perform_fields)
  have q2: "\<not> service_listening ?s1"
    unfolding s1 using h st ws by (simp add: foldl_perform_fields)
  have "wait_run c ?s0 (ignored @ first # later) = wait_run c ?s0 (first # later)"
    by (simp add: wait_run_append run_ignored [OF assms(1)])
  also have "\<dots> = ?s1"
    using run_quiet [OF q1 q2, of c later] by (simp add: wait_run_def)
  finally have r: "wait_run c ?s0 (ignored @ first # later) = ?s1" .
  have c0: "callbacks (effects ?s0) = []"
    by (simp add: waitForAccept_def)
  have c1: "callbacks (effects ?s1) =
      Inr a # (case callback_throws c a of None \<Rightarrow> [] | Some message \<Rightarrow> [Inl (503, message)])"
    unfolding e1 using cb c0 ca by (simp add: callbacks_append)
  from r c1 q1 q2 show ?thesis
    by (simp only:) blast
qed

lemmas example_defs = example_context_def example_invoice_def example_parse_def
  example_request_def example_settled_def example_accepted_def example_digest_request_def
  example_settled_bare_def

text \<open>
  The two example acceptances: with the output index 0 \<^verbatim>\<open>halfSign\<close> returns and so does
  the callback, with the output index \<open>2^40 - 1\<close> \<^verbatim>\<open>addInput\<close> throws inside the callback.
\<close>

lemma example_hashes:
  "is_Hash256bit (idAsHash example_own_txid) \<and> is_Hash256bit (idAsHash example_peer_txid)"
  by (simp add: is_Hash256bit_def example_own_txid_def example_peer_txid_def hex_eval)

lemma example_callback_returns: "callback_throws example_context example_accepted = None"
proof -
  have "\<exists>tx. halfSign (Num 2000000) example_funding address example_accepted = Some tx"
    for address
    using halfSign_inputs [of example_funding example_accepted "Num 2000000" address]
      example_hashes
    by (auto simp: example_funding_def example_accepted_def is_UInt32_def)
  then show ?thesis
    by (auto simp: example_context_def tasks_in_callback_def Let_def split: option.splits)
qed

lemma example_callback_throws:
  "callback_throws example_wide_context example_wide = Some example_thrown"
proof -
  have "\<not> is_UInt32 (accept_transaction_vout example_wide)"
    by (simp add: is_UInt32_def example_wide_def)
  then have "halfSign (Num 2000000) example_funding address example_wide = None" for address
    by (simp add: halfSign_throws)
  then show ?thesis
    by (simp add: example_wide_context_def tasks_in_callback_def Let_def)
qed

lemma example_context_fields:
  "partner_public_key example_context = ''02ab''"
  "invoice_id (accept_request example_context) = ''1f2e3d4c''"
  "multiSigType example_context = 80505"
  "partner_public_key example_wide_context = ''02ab''"
  "invoice_id (accept_request example_wide_context) = ''1f2e3d4c''"
  "multiSigType example_wide_context = 80505"
  by (simp_all add: example_context_def example_wide_context_def example_invoice_def)

lemma example_parsed:
  "balancedOpenAcceptDetails example_context
     [\<lparr>tlv_type = 0, tlv_value = ''1f2e3d4c''\<rparr>, \<lparr>tlv_type = 80505, tlv_value = ''02c1''\<rparr>] =
     Inr example_accepted"
  "balancedOpenAcceptDetails example_context [\<lparr>tlv_type = 80505, tlv_value = ''02c1''\<rparr>] =
     Inr example_accepted"
  "balancedOpenAcceptDetails example_wide_context
     [\<lparr>tlv_type = 0, tlv_value = ''1f2e3d4c''\<rparr>, \<lparr>tlv_type = 80505, tlv_value = ''02c1''\<rparr>] =
     Inr example_wide"
  "balancedOpenAcceptDetails example_wide_context [\<lparr>tlv_type = 80505, tlv_value = ''02c1''\<rparr>] =
     Inr example_wide"
  by (simp_all add: example_context_def example_wide_context_def example_parse_def
      example_parse_wide_def example_accepted_def example_wide_def)

lemmas example_eval = example_context_fields example_parsed example_callback_returns
  example_callback_throws example_request_def example_settled_def

lemma accepted_example_request:
  "accepted_details example_context (PeerRequest example_request) = Some example_accepted"
  by (simp add: example_eval)

lemma accepted_example_settled:
  "accepted_details example_context (InvoiceUpdated example_settled) = Some example_accepted"
  by (simp add: example_eval)

lemma ignored_examples:
  "\<forall>e\<in>set [InvoiceUpdated example_open, PeerRequest example_digest_request].
     handler_effects example_context e = []"
  by (simp add: handler_effects_def on_invoice_updated_def on_peer_request_def example_open_def
      example_defs)

lemma returning_example:
  "callbacks (effects (wait_run example_context (waitForAccept PeerRequestsService)
     ([InvoiceUpdated example_open, PeerRequest example_digest_request] @
      PeerRequest example_request # [InvoiceUpdated example_settled]))) = [Inr example_accepted] \<and>
   callbacks (effects (wait_run example_context (waitForAccept PeerRequestsService)
     ([InvoiceUpdated example_open, PeerRequest example_digest_request] @
      InvoiceUpdated example_settled # [PeerRequest example_request]))) = [Inr example_accepted]"
proof -
  note d = first_acceptance_decides [OF ignored_examples, THEN conjunct1]
  have 1: "callbacks (effects (wait_run example_context (waitForAccept PeerRequestsService)
     ([InvoiceUpdated example_open, PeerRequest example_digest_request] @
      PeerRequest example_request # [InvoiceUpdated example_settled]))) = [Inr example_accepted]"
    using d [OF accepted_example_request, of "[InvoiceUpdated example_settled]"]
    by (simp only: example_callback_returns option.case)
  have 2: "callbacks (effects (wait_run example_context (waitForAccept PeerRequestsService)
     ([InvoiceUpdated example_open, PeerRequest example_digest_request] @
      InvoiceUpdated example_settled # [PeerRequest example_request]))) = [Inr example_accepted]"
    using d [OF accepted_example_settled, of "[PeerRequest example_request]"]
    by (simp only: example_callback_returns option.case)
  from 1 2 show ?thesis by (rule conjI)
qed


text \<open>
  C3 as stated fails: the id the handler compares with is the id of the acceptance
  invoice, which the node chooses; the digest of the records is the description hash of
  that invoice. Here the two differ: the request that carries the id of the invoice
  resolves, and the request that carries the digest is ignored.
\<close>

theorem correlation_digest_counterexample:
  "createAcceptRequest example_createInvoice example_pushed = Inr example_invoice \<and>
   accept_request example_context = example_invoice \<and>
   invoice_id example_invoice \<noteq> push_digest example_pushed \<and>
   callbacks (on_peer_request example_context example_request) = [Inr example_accepted] \<and>
   find (\<lambda>n. tlv_type n = 0) (request_records example_request) =
     Some \<lparr>tlv_type = 0, tlv_value = invoice_id example_invoice\<rparr> \<and>
   find (\<lambda>n. tlv_type n = 0) (request_records example_digest_request) =
     Some \<lparr>tlv_type = 0, tlv_value = push_digest example_pushed\<rparr> \<and>
   on_peer_request example_context example_digest_request = []"
proof -
  have 1: "callbacks (on_peer_request example_context example_request) = [Inr example_accepted]"
    by (simp add: on_peer_request_def example_eval)
  have 2: "createAcceptRequest example_createInvoice example_pushed = Inr example_invoice \<and>
   accept_request example_context = example_invoice \<and>
   invoice_id example_invoice \<noteq> push_digest example_pushed \<and>
   find (\<lambda>n. tlv_type n = 0) (request_records example_request) =
     Some \<lparr>tlv_type = 0, tlv_value = invoice_id example_invoice\<rparr> \<and>
   find (\<lambda>n. tlv_type n = 0) (request_records example_digest_request) =
     Some \<lparr>tlv_type = 0, tlv_value = push_digest example_pushed\<rparr> \<and>
   on_peer_request example_context example_digest_request = []"
    by (simp add: createAcceptRequest_def example_createInvoice_def example_pushed_def
        on_peer_request_def example_defs)
  from 1 2 show ?thesis by blast
qed

text \<open>
  C3, amended: the handler of peer requests resolves exactly when the request is from
  the partner and its first record of type 0 equals the id of the acceptance invoice
  (\<^verbatim>\<open>createAcceptRequest.id\<close>); any other request is ignored: no effect, no resolution,
  and the state of the wait, the invoice listeners included, is unchanged.
\<close>

theorem peer_request_resolves_iff_correlates:
  "(callbacks (on_peer_request c req) \<noteq> [] \<longleftrightarrow> correlates c req) \<and>
   (\<not> correlates c req \<longrightarrow>
      on_peer_request c req = [] \<and> deliver c s (PeerRequest req) = s \<and>
      invoice_listeners (deliver c s (PeerRequest req)) = invoice_listeners s)"
proof -
  have a: "\<not> correlates c req \<Longrightarrow> on_peer_request c req = []"
    by (auto simp: on_peer_request_def correlates_def split: option.splits)
  have b: "correlates c req \<Longrightarrow> callbacks (on_peer_request c req) \<noteq> []"
    by (auto simp: on_peer_request_def correlates_def split: option.splits sum.splits)
  show ?thesis
  proof (cases "correlates c req")
    case True
    with b show ?thesis by simp
  next
    case False
    with a have "on_peer_request c req = []" by simp
    with False show ?thesis by simp
  qed
qed

theorem peer_request_resolves_iff_correlates_witness:
  "\<not> correlates example_context example_digest_request \<and>
   on_peer_request example_context example_digest_request = [] \<and>
   deliver example_context (waitForAccept PeerRequestsService) (PeerRequest example_digest_request) =
     waitForAccept PeerRequestsService \<and>
   invoice_listeners (deliver example_context (waitForAccept PeerRequestsService)
     (PeerRequest example_digest_request)) \<and>
   correlates example_context example_request \<and>
   callbacks (on_peer_request example_context example_request) \<noteq> []"
proof -
  have n: "\<not> correlates example_context example_digest_request"
    by (simp add: correlates_def example_defs)
  have y: "correlates example_context example_request"
    by (simp add: correlates_def example_defs)
  have l: "invoice_listeners (waitForAccept PeerRequestsService)"
    by (simp add: waitForAccept_def)
  from peer_request_resolves_iff_correlates
    [of example_context example_digest_request "waitForAccept PeerRequestsService"]
    peer_request_resolves_iff_correlates
    [of example_context example_request "waitForAccept PeerRequestsService"] n y l
  show ?thesis by simp
qed

text \<open>
  C9: while the wait listens to the invoice, a confirmed invoice none of whose payments
  has a record of the multisig key type makes the task call back with the error
  \<^verbatim>\<open>ExpectedPaymentWithPeerChannelDetails\<close>, after the listeners are removed.
\<close>

theorem settled_without_multisig_record_fails:
  assumes "invoice_listeners s" and "is_confirmed updated"
    and "\<forall>payment\<in>set (payments updated).
           \<forall>n\<in>set (payment_messages payment). tlv_type n \<noteq> multiSigType c"
  shows "callbacks (on_invoice_updated c updated) =
           [Inl (503, ''ExpectedPaymentWithPeerChannelDetails'')] \<and>
         effects (deliver c s (InvoiceUpdated updated)) =
           effects s @
           [LogInfo ''received_peer_balanced_channel_acceptance'', RemoveAllListeners,
            StopService, Callback (Inl (503, ''ExpectedPaymentWithPeerChannelDetails''))] \<and>
         \<not> invoice_listeners (deliver c s (InvoiceUpdated updated)) \<and>
         callbacks (effects (wait_run c (waitForAccept service) [InvoiceUpdated updated])) =
           [Inl (503, ''ExpectedPaymentWithPeerChannelDetails'')]"
proof -
  have n: "find (\<lambda>payment. find (\<lambda>n. tlv_type n = multiSigType c) (payment_messages payment)
                                 \<noteq> None) (payments updated) = None"
    using assms(3) by (auto simp: find_None_iff)
  have h: "on_invoice_updated c updated =
      [LogInfo ''received_peer_balanced_channel_acceptance'', RemoveAllListeners,
       StopService, Callback (Inl (503, ''ExpectedPaymentWithPeerChannelDetails''))]"
    using assms(2) n by (simp add: on_invoice_updated_def)
  have d: "deliver c s (InvoiceUpdated updated) = foldl perform s (on_invoice_updated c updated)"
    using assms(1) by simp
  have w: "wait_run c (waitForAccept service) [InvoiceUpdated updated] =
      foldl perform (waitForAccept service) (on_invoice_updated c updated)"
    by (simp add: wait_run_def waitForAccept_def)
  show ?thesis
    unfolding d w foldl_perform_fields [THEN conjunct1]
      foldl_perform_fields [THEN conjunct2, THEN conjunct2, THEN conjunct1]
    by (simp add: h waitForAccept_def)
qed

theorem settled_without_multisig_record_fails_witness:
  "invoice_listeners (waitForAccept PeerRequestsService) \<and> is_confirmed example_settled_bare \<and>
   callbacks (on_invoice_updated example_context example_settled_bare) =
     [Inl (503, ''ExpectedPaymentWithPeerChannelDetails'')] \<and>
   callbacks (effects (wait_run example_context (waitForAccept PeerRequestsService)
     [InvoiceUpdated example_settled_bare])) =
     [Inl (503, ''ExpectedPaymentWithPeerChannelDetails'')]"
proof -
  have l: "invoice_listeners (waitForAccept PeerRequestsService)"
    by (simp add: waitForAccept_def)
  have c: "is_confirmed example_settled_bare"
    by (simp add: example_defs)
  have m: "\<forall>payment\<in>set (payments example_settled_bare).
           \<forall>n\<in>set (payment_messages payment). tlv_type n \<noteq> multiSigType example_context"
    by (simp add: example_defs)
  from settled_without_multisig_record_fails [OF l c m, of PeerRequestsService] l c
  show ?thesis by blast
qed

lemma dummy_simulation:
  assumes "invoice_listeners d = invoice_listeners r" and "effects d = effects r"
    and "\<not> service_listening d"
  shows "invoice_listeners (wait_run c d events) =
           invoice_listeners (wait_run c r (filter (\<lambda>e. \<not> is_peer_request e) events)) \<and>
         effects (wait_run c d events) =
           effects (wait_run c r (filter (\<lambda>e. \<not> is_peer_request e) events)) \<and>
         \<not> service_listening (wait_run c d events)"
  using assms
proof (induction events arbitrary: d r)
  case Nil
  then show ?case by (simp add: wait_run_def)
next
  case (Cons e events)
  show ?case
  proof (cases "is_peer_request e")
    case True
    then have "deliver c d e = d"
      using Cons.prems(3) by (cases e) simp_all
    with True Cons.IH [OF Cons.prems] show ?thesis by (simp add: wait_run_def)
  next
    case False
    then have ld: "listening d e = invoice_listeners d" and lr: "listening r e = invoice_listeners r"
      by (simp_all add: listening_def)
    have 1: "invoice_listeners (deliver c d e) = invoice_listeners (deliver c r e)"
      using Cons.prems(1) ld lr by (simp add: deliver_eq foldl_perform_fields)
    have 2: "effects (deliver c d e) = effects (deliver c r e)"
      using Cons.prems(1,2) ld lr by (simp add: deliver_eq foldl_perform_fields)
    have 3: "\<not> service_listening (deliver c d e)"
      using Cons.prems(3) by (simp add: deliver_eq foldl_perform_fields)
    from Cons.IH [OF 1 2 3] False show ?thesis by (simp add: wait_run_def)
  qed
qed

lemma exec_run_to_p2pService:
  "exec initial_state run_to_p2pService = Some state_at_p2pService"
  by (simp add: run_to_p2pService_def state_at_p2pService_def initial_state_def running_def
      finished_def askForCapacity_2000000)

lemma running_p2pService: "running state_at_p2pService P2pService"
  by (simp add: state_at_p2pService_def running_def finished_def)

text \<open>
  C10: when the test message cannot be sent the \<^verbatim>\<open>p2pService\<close> task still calls back
  with a result, the dummy service, and no error is recorded; only the wait depends on
  that result; with the dummy service no peer request is ever handled, and the wait
  does on the invoice events exactly what it does with the real service.
\<close>

theorem dummy_service_keeps_negotiating:
  "p2pService (Some err) = Inr DummyService \<and>
   (running s P2pService \<longrightarrow>
      (\<exists>s'. step s (SendMessageToPeer (Some err)) = Some s' \<and> failed s' = failed s \<and>
            P2pService \<in> set (completed s') \<and> results_p2pService s' = Some DummyService)) \<and>
   (\<forall>t. P2pService \<in> set (deps t) \<longrightarrow> t = WaitForAccept) \<and>
   \<not> service_listening (wait_run c (waitForAccept DummyService) events) \<and>
   effects (wait_run c (waitForAccept DummyService) events) =
     effects (wait_run c (waitForAccept PeerRequestsService)
                (filter (\<lambda>e. \<not> is_peer_request e) events))"
proof -
  have 1: "p2pService (Some err) = Inr DummyService" by (simp add: p2pService_def)
  have 2: "running s P2pService \<longrightarrow>
      (\<exists>s'. step s (SendMessageToPeer (Some err)) = Some s' \<and> failed s' = failed s \<and>
            P2pService \<in> set (completed s') \<and> results_p2pService s' = Some DummyService)"
    by (simp add: p2pService_def)
  have 3: "\<forall>t. P2pService \<in> set (deps t) \<longrightarrow> t = WaitForAccept"
  proof (intro allI impI)
    fix t assume "P2pService \<in> set (deps t)"
    then show "t = WaitForAccept" by (cases t) simp_all
  qed
  have 4: "\<not> service_listening (wait_run c (waitForAccept DummyService) events) \<and>
     effects (wait_run c (waitForAccept DummyService) events) =
     effects (wait_run c (waitForAccept PeerRequestsService)
                (filter (\<lambda>e. \<not> is_peer_request e) events))"
    using dummy_simulation [of "waitForAccept DummyService" "waitForAccept PeerRequestsService"
        c events]
    by (simp add: waitForAccept_def)
  from 1 2 3 4 show ?thesis by blast
qed

theorem dummy_service_keeps_negotiating_witness:
  "exec initial_state run_to_p2pService = Some state_at_p2pService \<and>
   running state_at_p2pService P2pService \<and>
   (\<exists>s. exec state_at_p2pService
           [SendMessageToPeer (Some (503, ''FailedToSendMessageToPeer'')),
            Succeed PushRequest, Start WaitForAccept] = Some s \<and>
         failed s = [] \<and> results_p2pService s = Some DummyService \<and>
         WaitForAccept \<in> set (started s)) \<and>
   callbacks (effects (wait_run example_context (waitForAccept DummyService)
     [PeerRequest example_request])) = [] \<and>
   callbacks (effects (wait_run example_context (waitForAccept DummyService)
     [PeerRequest example_request, InvoiceUpdated example_settled])) = [Inr example_accepted]"
proof -
  note t = dummy_service_keeps_negotiating
  have a: "\<exists>s. exec state_at_p2pService
           [SendMessageToPeer (Some (503, ''FailedToSendMessageToPeer'')),
            Succeed PushRequest, Start WaitForAccept] = Some s \<and>
         failed s = [] \<and> results_p2pService s = Some DummyService \<and>
         WaitForAccept \<in> set (started s)"
    by (simp add: state_at_p2pService_def running_def finished_def p2pService_def)
  have b: "effects (wait_run example_context (waitForAccept DummyService)
             [PeerRequest example_request]) =
           effects (wait_run example_context (waitForAccept PeerRequestsService) [])"
    using t [of "(503, ''FailedToSendMessageToPeer'')" state_at_p2pService example_context
        "[PeerRequest example_request]"] by simp
  have c: "effects (wait_run example_context (waitForAccept DummyService)
             [PeerRequest example_request, InvoiceUpdated example_settled]) =
           effects (wait_run example_context (waitForAccept PeerRequestsService)
             [InvoiceUpdated example_settled])"
    using t [of "(503, ''FailedToSendMessageToPeer'')" state_at_p2pService example_context
        "[PeerRequest example_request, InvoiceUpdated example_settled]"] by simp
  have d: "callbacks (effects (wait_run example_context (waitForAccept PeerRequestsService) [])) = []"
    by (simp add: wait_run_def waitForAccept_def)
  have e: "callbacks (effects (wait_run example_context (waitForAccept PeerRequestsService)
             [InvoiceUpdated example_settled])) = [Inr example_accepted]"
    by (simp add: wait_run_def waitForAccept_def on_invoice_updated_def example_eval)
  from exec_run_to_p2pService running_p2pService a show ?thesis
    unfolding b c d e by blast
qed

end
